theory Spec2Isabelle
  imports Complex_Main "HOL-Library.Multiset" "HOL-Library.Product_Lexorder"
begin

section \<open>Complexity measures of dynadojo: a shallow embedding\<close>

text \<open>
  The theory embeds \<^verbatim>\<open>src/dynadojo/utils/complexity_measures.py\<close>.
  The numbers of the program are IEEE doubles held in numpy arrays. The embedding keeps
  the special values of the doubles (the infinities and NaN, which numpy produces
  instead of raising) and idealises the finite ones: a finite double is a \<^typ>\<open>real\<close>
  and arithmetic on finite values is exact, so rounding and overflow are outside the
  model. The two zeros are one value; where a divisor can be the negative zero the
  division says so. Inputs (spectra, trajectories) are arrays of finite values.
  Every exception the Python raises is a value \<open>Inl e\<close> of a sum type.
\<close>

subsection \<open>Exceptions and numpy scalars\<close>

datatype py_error =
    IndexError
  | ValueError
  | TypeError
  | UnboundLocalError
  | AxisError
  | LinAlgError
  | Exception string

datatype npfloat = NInf | Fin real | PInf | NaN

text \<open>
  Arithmetic of doubles on the special values, as IEEE 754 and numpy define it. In
  \<open>np_div\<close> a zero divisor is the positive zero (an absolute value, or a sum of
  logarithms of quotients that are at least one).
\<close>

fun np_add :: "npfloat \<Rightarrow> npfloat \<Rightarrow> npfloat" where
  "np_add (Fin a) (Fin b) = Fin (a + b)"
| "np_add NaN y = NaN"
| "np_add x NaN = NaN"
| "np_add PInf NInf = NaN"
| "np_add NInf PInf = NaN"
| "np_add PInf y = PInf"
| "np_add x PInf = PInf"
| "np_add NInf y = NInf"
| "np_add x NInf = NInf"

fun np_div :: "npfloat \<Rightarrow> npfloat \<Rightarrow> npfloat" where
  "np_div (Fin a) (Fin b) =
     (if b \<noteq> 0 then Fin (a / b)
      else if 0 < a then PInf else if a < 0 then NInf else NaN)"
| "np_div NaN y = NaN"
| "np_div x NaN = NaN"
| "np_div (Fin a) y = Fin 0"
| "np_div PInf (Fin b) = (if 0 \<le> b then PInf else NInf)"
| "np_div NInf (Fin b) = (if 0 \<le> b then NInf else PInf)"
| "np_div x y = NaN"

fun np_log :: "npfloat \<Rightarrow> npfloat" where
  "np_log (Fin x) = (if 0 < x then Fin (ln x) else if x = 0 then NInf else NaN)"
| "np_log PInf = PInf"
| "np_log NInf = NaN"
| "np_log NaN = NaN"

fun np_abs :: "npfloat \<Rightarrow> npfloat" where
  "np_abs (Fin x) = Fin \<bar>x\<bar>"
| "np_abs PInf = PInf"
| "np_abs NInf = PInf"
| "np_abs NaN = NaN"

text \<open>The comparison \<open><\<close> of doubles: false as soon as one side is NaN.\<close>

fun np_less :: "npfloat \<Rightarrow> npfloat \<Rightarrow> bool" where
  "np_less (Fin a) (Fin b) = (a < b)"
| "np_less NaN y = False"
| "np_less x NaN = False"
| "np_less x NInf = False"
| "np_less NInf y = True"
| "np_less PInf y = False"
| "np_less x PInf = True"

fun is_finite :: "npfloat \<Rightarrow> bool" where
  "is_finite (Fin x) = True"
| "is_finite x = False"

fun np_neg :: "npfloat \<Rightarrow> npfloat" where
  "np_neg (Fin x) = Fin (- x)"
| "np_neg PInf = NInf"
| "np_neg NInf = PInf"
| "np_neg NaN = NaN"

text \<open>
  \<^verbatim>\<open>x / (dt * n)\<close> for a double \<open>dt\<close> and a Python integer \<open>n\<close>, where \<open>dt\<close>, a median of
  differences of times, is the positive zero when it is zero. The product is the
  negative zero when \<open>dt\<close> is negative and \<open>n\<close> is zero, or \<open>dt\<close> is zero and \<open>n\<close> is negative;
  a quotient by the negative zero is the negated quotient by the positive zero.
\<close>

definition np_div_product :: "npfloat \<Rightarrow> real \<Rightarrow> int \<Rightarrow> npfloat" where
  "np_div_product x dt n =
     (if (dt < 0 \<and> n = 0) \<or> (dt = 0 \<and> n < 0) then np_neg (np_div x (Fin 0))
      else np_div x (Fin (dt * real_of_int n)))"

subsection \<open>Arrays\<close>

text \<open>
  A one-dimensional array is a list; a two-dimensional array of shape \<open>(T, D)\<close> is the
  list of its \<open>T\<close> rows, each of length \<open>D\<close>; an array without rows is taken to have
  no columns. Indexing follows Python: a negative index counts from the end, an index
  outside the array raises.
\<close>

definition py_index :: "'a list \<Rightarrow> int \<Rightarrow> py_error + 'a" where
  "py_index xs i =
     (if 0 \<le> i \<and> i < int (length xs) then Inr (xs ! nat i)
      else if i < 0 \<and> - int (length xs) \<le> i then Inr (xs ! nat (int (length xs) + i))
      else Inl IndexError)"

text \<open>\<^verbatim>\<open>np.cumsum\<close>: the running sums, from the left.\<close>

fun cumsum_from :: "real \<Rightarrow> real list \<Rightarrow> real list" where
  "cumsum_from acc [] = []"
| "cumsum_from acc (x # xs) = (acc + x) # cumsum_from (acc + x) xs"

definition np_cumsum :: "real list \<Rightarrow> real list" where
  "np_cumsum xs = cumsum_from 0 xs"

text \<open>\<^verbatim>\<open>np.where(a >= 0)\<close> on a one-dimensional array: the indices, ascending.\<close>

definition np_where_ge0 :: "real list \<Rightarrow> nat list" where
  "np_where_ge0 a = filter (\<lambda>i. 0 \<le> a ! i) [0..<length a]"

text \<open>\<^verbatim>\<open>np.max\<close> raises \<open>ValueError\<close> on an empty array.\<close>

definition np_max :: "nat list \<Rightarrow> py_error + nat" where
  "np_max xs = (case xs of [] \<Rightarrow> Inl ValueError | x # rest \<Rightarrow> Inr (fold max rest x))"

text \<open>
  \<^verbatim>\<open>np.argmax\<close> of a boolean array: the index of the first \<open>True\<close>, and \<open>0\<close> when
  every entry is \<open>False\<close> (the first maximum); \<open>ValueError\<close> on an empty array.
\<close>

fun first_true :: "bool list \<Rightarrow> nat option" where
  "first_true [] = None"
| "first_true (b # bs) = (if b then Some 0 else map_option Suc (first_true bs))"

definition np_argmax :: "bool list \<Rightarrow> py_error + nat" where
  "np_argmax bs =
     (if bs = [] then Inl ValueError
      else Inr (case first_true bs of None \<Rightarrow> 0 | Some i \<Rightarrow> i))"

text \<open>
  \<^verbatim>\<open>np.median\<close> of a one-dimensional array: the middle of the sorted values, the mean
  of the two middle ones when the length is even, NaN (with a warning) when it is empty.
\<close>

definition np_median :: "real list \<Rightarrow> npfloat" where
  "np_median xs =
     (let s = sort xs; n = length s in
      if n = 0 then NaN
      else if odd n then Fin (s ! (n div 2))
      else Fin ((s ! (n div 2 - 1) + s ! (n div 2)) / 2))"

text \<open>The columns of a two-dimensional array (\<^verbatim>\<open>a.T\<close>, iterated).\<close>

definition ncols :: "'a list list \<Rightarrow> nat" where
  "ncols rows = (case rows of [] \<Rightarrow> 0 | r # _ \<Rightarrow> length r)"

definition columns :: "'a list list \<Rightarrow> 'a list list" where
  "columns rows = map (\<lambda>j. map (\<lambda>r. r ! j) rows) [0..<ncols rows]"

text \<open>\<^verbatim>\<open>np.min\<close> of a one-dimensional array raises \<open>ValueError\<close> when the array is empty.\<close>

definition np_min :: "real list \<Rightarrow> py_error + real" where
  "np_min xs = (case xs of [] \<Rightarrow> Inl ValueError | x # rest \<Rightarrow> Inr (fold min rest x))"

text \<open>\<^verbatim>\<open>np.sum\<close> of a one-dimensional array of doubles; the sum of no values is zero.\<close>

definition np_sum :: "npfloat list \<Rightarrow> npfloat" where
  "np_sum xs = foldl np_add (Fin 0) xs"

text \<open>
  \<^verbatim>\<open>np.percentile(a, q)\<close> with the default linear interpolation: with the \<open>n\<close> values
  sorted, the result lies at the virtual index \<open>(n - 1) * q / 100\<close>, between the
  neighbouring values. On an empty array the call raises \<open>IndexError\<close>.
\<close>

definition percentile_value :: "real list \<Rightarrow> real \<Rightarrow> real" where
  "percentile_value a q =
     (let s = sort a;
          n = length s;
          h = real (n - 1) * q / 100;
          lo = nat \<lfloor>h\<rfloor>;
          hi = min (lo + 1) (n - 1)
      in s ! lo + (h - real lo) * (s ! hi - s ! lo))"

definition np_percentile :: "real list \<Rightarrow> real \<Rightarrow> py_error + real" where
  "np_percentile a q = (if a = [] then Inl IndexError else Inr (percentile_value a q))"

text \<open>The first error of a list of results, or all the values.\<close>

fun collect :: "(py_error + 'a) list \<Rightarrow> py_error + 'a list" where
  "collect [] = Inr []"
| "collect (Inl err # rs) = Inl err"
| "collect (Inr v # rs) = (case collect rs of Inl err \<Rightarrow> Inl err | Inr vs \<Rightarrow> Inr (v # vs))"

subsection \<open>Power-law exponent\<close>

text \<open>
  \<^verbatim>\<open>
  def estimate_powerlaw(data0):
      data = np.sort(data0, axis=0).copy()
      xmin = np.min(data, axis=0)
      n = data.shape[0]
      ahat = 1 + n / np.sum(np.log(data / xmin), axis=0)
      return ahat
  \<close>
  \<^verbatim>\<open>np.sort\<close> returns a new array and no statement assigns into \<open>data0\<close>: the function
  is a function of its argument alone. On a one-dimensional array every operation acts
  on the whole array and the result is one double.
\<close>

definition estimate_powerlaw :: "real list \<Rightarrow> py_error + npfloat" where
  "estimate_powerlaw data0 =
     (let data = sort data0 in
      case np_min data of
        Inl err \<Rightarrow> Inl err
      | Inr xmin \<Rightarrow>
          (let n = length data;
               ahat = np_add (Fin 1)
                        (np_div (Fin (real n))
                           (np_sum (map (\<lambda>x. np_log (np_div (Fin x) (Fin xmin))) data)))
           in Inr ahat))"

text \<open>
  On a two-dimensional array of shape \<open>(n, D)\<close> the operations with \<^verbatim>\<open>axis=0\<close> act on
  each of the \<open>D\<close> columns (\<open>xmin\<close> has one entry per column and is broadcast over the
  rows), and \<open>n\<close> is the number of rows: the result has one double per column, computed
  from that column as above. An array without rows (shape \<open>(0, D)\<close>) makes \<^verbatim>\<open>np.min\<close>
  raise.
\<close>

definition estimate_powerlaw_columns :: "real list list \<Rightarrow> py_error + npfloat list" where
  "estimate_powerlaw_columns data0 =
     (if data0 = [] then Inl ValueError
      else collect (map estimate_powerlaw (columns data0)))"

subsection \<open>Correlation dimension\<close>

text \<open>
  \<^verbatim>\<open>scipy.spatial.distance.cdist(XA, XB)\<close>: the matrix of Euclidean distances between
  the rows of \<open>XA\<close> and the rows of \<open>XB\<close>; \<open>ValueError\<close> when the two arrays have
  different numbers of columns.
\<close>

definition euclidean :: "real list \<Rightarrow> real list \<Rightarrow> real" where
  "euclidean u v = sqrt (sum_list (map2 (\<lambda>a b. (a - b)\<^sup>2) u v))"

definition cdist :: "real list list \<Rightarrow> real list list \<Rightarrow> py_error + real list list" where
  "cdist XA XB =
     (if XA \<noteq> [] \<and> XB \<noteq> [] \<and> ncols XA \<noteq> ncols XB then Inl ValueError
      else Inr (map (\<lambda>u. map (\<lambda>v. euclidean u v) XB) XA))"

text \<open>
  \<^verbatim>\<open>
  def gp_dim(data, y_data=None, rvals=None, nmax=100):
      data = np.asarray(data)
      if y_data is None:
          y_data = data.copy()
      if rvals is None:
          std = np.std(data)
          rvals = np.logspace(np.log10(0.1 * std), np.log10(0.5 * std), nmax)
      n = len(data)
      dists = cdist(data, y_data)
      rvals = dists.ravel()
      std = np.std(data)
      rvals = rvals[rvals > 0]
      rvals = rvals[rvals > np.percentile(rvals, 5)]
      rvals = rvals[rvals < np.percentile(rvals, 50)]
      return estimate_powerlaw(rvals)
  \<close>
  The arguments \<open>rvals\<close> and \<open>nmax\<close> and the values \<open>std\<close> and \<open>n\<close> do not reach the
  result: \<open>rvals\<close> is overwritten by the flattened distances before it is read. Each
  filter reads the array the previous statement assigned, so the 50th percentile is
  that of the values above the 5th percentile. \<open>gp_sample\<close> is the value of \<open>rvals\<close> at
  the \<open>return\<close>.
\<close>

definition gp_sample :: "real list list \<Rightarrow> real list list option \<Rightarrow> py_error + real list" where
  "gp_sample data y_data_opt =
     (let y_data = (case y_data_opt of None \<Rightarrow> data | Some y \<Rightarrow> y) in
      case cdist data y_data of
        Inl err \<Rightarrow> Inl err
      | Inr dists \<Rightarrow>
          (let rvals0 = concat dists;
               rvals1 = filter (\<lambda>r. r > 0) rvals0
           in case np_percentile rvals1 5 of
                Inl err \<Rightarrow> Inl err
              | Inr p5 \<Rightarrow>
                  (let rvals2 = filter (\<lambda>r. r > p5) rvals1
                   in case np_percentile rvals2 50 of
                        Inl err \<Rightarrow> Inl err
                      | Inr p50 \<Rightarrow> Inr (filter (\<lambda>r. r < p50) rvals2))))"

definition gp_dim :: "real list list \<Rightarrow> real list list option \<Rightarrow> py_error + npfloat" where
  "gp_dim data y_data_opt =
     (case gp_sample data y_data_opt of
        Inl err \<Rightarrow> Inl err
      | Inr rvals \<Rightarrow> estimate_powerlaw rvals)"

text \<open>
  The sample as the specification words it: the positive distances strictly between
  the 5th and the 50th percentile, both percentiles taken of the positive distances.
\<close>

definition band_of_positive_distances :: "real list \<Rightarrow> real list" where
  "band_of_positive_distances dists =
     (let pos = filter (\<lambda>r. r > 0) dists
      in filter (\<lambda>r. percentile_value pos 5 < r \<and> r < percentile_value pos 50) pos)"

subsection \<open>Lyapunov spectrum\<close>

text \<open>
  Vectors and matrices of finite doubles. A matrix is the list of its rows.
\<close>

type_synonym vec = "real list"

type_synonym matrix = "real list list"

definition is_mat :: "nat \<Rightarrow> matrix \<Rightarrow> bool" where
  "is_mat d M = (length M = d \<and> list_all (\<lambda>r. length r = d) M)"

text \<open>\<^verbatim>\<open>np.identity(d)\<close> and \<^verbatim>\<open>np.eye(d)\<close>.\<close>

definition identity :: "nat \<Rightarrow> matrix" where
  "identity d = map (\<lambda>i. map (\<lambda>j. if i = j then 1 else 0) [0..<d]) [0..<d]"

text \<open>\<^verbatim>\<open>M * c\<close>, \<^verbatim>\<open>A - B\<close> and \<^verbatim>\<open>A @ B\<close> (\<^verbatim>\<open>np.matmul\<close>) on matrices of one shape.\<close>

definition mat_scale :: "real \<Rightarrow> matrix \<Rightarrow> matrix" where
  "mat_scale c M = map (map (\<lambda>x. x * c)) M"

definition mat_sub :: "matrix \<Rightarrow> matrix \<Rightarrow> matrix" where
  "mat_sub A B = map2 (map2 (\<lambda>a b. a - b)) A B"

definition matmul :: "matrix \<Rightarrow> matrix \<Rightarrow> matrix" where
  "matmul A B = map (\<lambda>r. map (\<lambda>c. sum_list (map2 (\<lambda>a b. a * b) r c)) (columns B)) A"

text \<open>\<^verbatim>\<open>r.diagonal()\<close> of a square matrix.\<close>

definition diagonal :: "matrix \<Rightarrow> vec" where
  "diagonal M = map (\<lambda>i. M ! i ! i) [0..<length M]"

text \<open>\<^verbatim>\<open>np.diff\<close>: the differences of consecutive entries.\<close>

definition np_diff :: "real list \<Rightarrow> real list" where
  "np_diff ts = map2 (\<lambda>later earlier. later - earlier) (tl ts) ts"

text \<open>
  \<^verbatim>\<open>np.min\<close> of an array of doubles that may hold special values: NaN as soon as one
  entry is NaN, otherwise the least entry; \<open>ValueError\<close> on an empty array.
\<close>

definition np_fmin2 :: "npfloat \<Rightarrow> npfloat \<Rightarrow> npfloat" where
  "np_fmin2 a b = (if a = NaN \<or> b = NaN then NaN else if np_less b a then b else a)"

definition np_fmin :: "npfloat list \<Rightarrow> py_error + npfloat" where
  "np_fmin xs = (case xs of [] \<Rightarrow> Inl ValueError | x # rest \<Rightarrow> Inr (fold np_fmin2 rest x))"

text \<open>
  \<^verbatim>\<open>np.sort\<close> of an array of doubles: ascending, with the NaNs last. The key places the
  doubles in that order: \<open>-inf\<close>, the finite values, \<open>+inf\<close>, NaN.
\<close>

fun np_sort_key :: "npfloat \<Rightarrow> nat \<times> real" where
  "np_sort_key NInf = (0, 0)"
| "np_sort_key (Fin x) = (1, x)"
| "np_sort_key PInf = (2, 0)"
| "np_sort_key NaN = (3, 0)"

definition np_sort :: "npfloat list \<Rightarrow> npfloat list" where
  "np_sort xs = sort_key np_sort_key xs"

text \<open>The value of a finite double.\<close>

fun fin_value :: "npfloat \<Rightarrow> real" where
  "fin_value (Fin x) = x"
| "fin_value x = 0"

text \<open>
  The model object of \<^verbatim>\<open>dysts\<close> is not code of the repository; the function reads its
  initial condition \<open>ic\<close>, calls \<open>make_trajectory\<close> (with \<^verbatim>\<open>resample=True\<close>,
  \<^verbatim>\<open>return_times=True\<close>, \<^verbatim>\<open>postprocessing=False\<close>; the result is the pair of the
  times and the states), \<open>rhs\<close> and \<open>jac\<close> (\<open>None\<close> when the model has no analytic
  Jacobian), and \<open>_postprocessing\<close> when the attribute exists.
\<close>

record model =
  ic :: vec
  make_trajectory :: "int \<Rightarrow> int \<Rightarrow> real list \<times> vec list"
  rhs :: "vec \<Rightarrow> real \<Rightarrow> vec"
  jac :: "vec \<Rightarrow> real \<Rightarrow> matrix option"
  postprocessing :: "(vec \<Rightarrow> vec) option"

text \<open>
  The numerical routines the function calls: \<^verbatim>\<open>dysts.utils.jac_fd\<close> (the
  finite-difference Jacobian of a function at a point), \<^verbatim>\<open>np.linalg.inv\<close> (which raises
  \<open>LinAlgError\<close> on a singular matrix) and \<^verbatim>\<open>np.linalg.qr\<close> (the pair \<open>(q, r)\<close>).
\<close>

record numerics =
  jac_fd :: "(vec \<Rightarrow> vec) \<Rightarrow> vec \<Rightarrow> matrix"
  linalg_inv :: "matrix \<Rightarrow> py_error + matrix"
  linalg_qr :: "matrix \<Rightarrow> matrix \<times> matrix"

text \<open>
  \<^verbatim>\<open>
  d = np.asarray(model.ic).shape[-1]
  tpts, traj = model.make_trajectory(traj_length, pts_per_period=pts_per_period,
      resample=True, return_times=True, postprocessing=False, **kwargs)
  dt = np.median(np.diff(tpts))
  u = np.identity(d)
  all_lyap = list()
  for i, (t, X) in enumerate(zip(tpts, traj)):
      X = traj[i]
      if model.jac(model.ic, 0) is None:
          rhsy = lambda x: np.array(model.rhs(x, t))
          jacval = jac_fd(rhsy, X)
      else:
          jacval = np.array(model.jac(X, t))
      if hasattr(model, "_postprocessing"):
          X0 = np.copy(X)
          y2h = lambda y: model._postprocessing(*y)
          dhdy = jac_fd(y2h, X0)
          dydh = np.linalg.inv(dhdy)
          jacval = dhdy @ jacval @ dydh
      if i < 1: continue
      u_n = np.matmul(np.linalg.inv(np.eye(d) - jacval * dt), u)
      q, r = np.linalg.qr(u_n)
      lyap_estimate = np.log(abs(r.diagonal()))
      all_lyap.append(lyap_estimate)
      u = q
      if (np.min(np.abs(lyap_estimate)) < tol) and (i > min_tpts):
          traj_length = i
  all_lyap = np.array(all_lyap)
  final_lyap = np.sum(all_lyap, axis=0) / (dt * traj_length)
  return np.sort(final_lyap)[::-1]
  \<close>
  The Jacobian of one pass of the loop. \<open>jacobian_at\<close> is the array \<open>jacval\<close> before the
  coordinate change; it is \<open>None\<close> when the analytic Jacobian exists at the initial
  condition and returns \<open>None\<close> at the state (\<^verbatim>\<open>np.array(None)\<close> raises nothing). Such an
  array raises where it is first used: \<open>ValueError\<close> in the product \<^verbatim>\<open>dhdy @ jacval\<close>,
  after the inversion of \<open>dhdy\<close>; \<open>TypeError\<close> in \<^verbatim>\<open>jacval * dt\<close> when the model has no
  coordinate change.
\<close>

definition jacobian_at :: "numerics \<Rightarrow> model \<Rightarrow> real \<Rightarrow> vec \<Rightarrow> matrix option" where
  "jacobian_at la m t X =
     (case jac m (ic m) 0 of
        None \<Rightarrow> Some (jac_fd la (\<lambda>x. rhs m x t) X)
      | Some J0 \<Rightarrow> jac m X t)"

definition jacval_of :: "numerics \<Rightarrow> model \<Rightarrow> real \<Rightarrow> vec \<Rightarrow> py_error + matrix" where
  "jacval_of la m t X =
     (case postprocessing m of
        None \<Rightarrow>
          (case jacobian_at la m t X of None \<Rightarrow> Inl TypeError | Some J \<Rightarrow> Inr J)
      | Some y2h \<Rightarrow>
          (let dhdy = jac_fd la y2h X in
           case linalg_inv la dhdy of
             Inl err \<Rightarrow> Inl err
           | Inr dydh \<Rightarrow>
               (case jacobian_at la m t X of
                  None \<Rightarrow> Inl ValueError
                | Some J \<Rightarrow> Inr (matmul (matmul dhdy J) dydh))))"

text \<open>
  The state of the loop: the frame \<open>u\<close>, the list \<open>all_lyap\<close> and the variable
  \<open>traj_length\<close>, which the early-stopping test overwrites. One pass, for the item
  \<open>(i, (t, X))\<close> of the enumeration; \<open>dt\<close> is read only when \<open>i \<ge> 1\<close>.
\<close>

type_synonym lyap_state = "matrix \<times> npfloat list list \<times> int"

definition lyap_step ::
  "numerics \<Rightarrow> model \<Rightarrow> nat \<Rightarrow> real \<Rightarrow> real \<Rightarrow> int \<Rightarrow> nat \<times> real \<times> vec \<Rightarrow> lyap_state
     \<Rightarrow> py_error + lyap_state" where
  "lyap_step la m d dt tol min_tpts item st =
     (case item of (i, t, X) \<Rightarrow>
      case st of (u, all_lyap, traj_length) \<Rightarrow>
        if i < 1 then
          (case postprocessing m of
             None \<Rightarrow> Inr st
           | Some y2h \<Rightarrow> (case jacval_of la m t X of Inl err \<Rightarrow> Inl err | Inr jacval \<Rightarrow> Inr st))
        else
          (case jacval_of la m t X of
             Inl err \<Rightarrow> Inl err
           | Inr jacval \<Rightarrow>
               (case linalg_inv la (mat_sub (identity d) (mat_scale dt jacval)) of
                  Inl err \<Rightarrow> Inl err
                | Inr inverse_step \<Rightarrow>
                    (let u_n = matmul inverse_step u;
                         q = fst (linalg_qr la u_n);
                         r = snd (linalg_qr la u_n);
                         lyap_estimate = map (\<lambda>x. np_log (Fin \<bar>x\<bar>)) (diagonal r)
                     in case np_fmin (map np_abs lyap_estimate) of
                          Inl err \<Rightarrow> Inl err
                        | Inr smallest \<Rightarrow>
                            Inr (q, all_lyap @ [lyap_estimate],
                                 if np_less smallest (Fin tol) \<and> int i > min_tpts then int i
                                 else traj_length)))))"

fun lyap_loop ::
  "numerics \<Rightarrow> model \<Rightarrow> nat \<Rightarrow> real \<Rightarrow> real \<Rightarrow> int \<Rightarrow> (nat \<times> real \<times> vec) list \<Rightarrow> lyap_state
     \<Rightarrow> py_error + lyap_state" where
  "lyap_loop la m d dt tol min_tpts [] st = Inr st"
| "lyap_loop la m d dt tol min_tpts (item # items) st =
     (case lyap_step la m d dt tol min_tpts item st of
        Inl err \<Rightarrow> Inl err
      | Inr st' \<Rightarrow> lyap_loop la m d dt tol min_tpts items st')"

text \<open>\<^verbatim>\<open>enumerate(zip(tpts, traj))\<close>.\<close>

definition enumerate_zip :: "real list \<Rightarrow> vec list \<Rightarrow> (nat \<times> real \<times> vec) list" where
  "enumerate_zip tpts traj = zip [0..<min (length tpts) (length traj)] (zip tpts traj)"

text \<open>
  After the loop: with nothing recorded, \<^verbatim>\<open>np.sum\<close> of the empty array is a scalar and
  \<^verbatim>\<open>np.sort\<close> raises on it (\<open>AxisError\<close>). Otherwise the columns of \<open>all_lyap\<close> are summed
  and divided, as doubles, by \<open>dt * traj_length\<close>. The arguments \<open>traj_length\<close>,
  \<open>pts_per_period\<close> and \<open>min_tpts\<close> are Python integers.
\<close>

definition find_lyapunov_exponents ::
  "numerics \<Rightarrow> model \<Rightarrow> int \<Rightarrow> int \<Rightarrow> real \<Rightarrow> int \<Rightarrow> py_error + npfloat list" where
  "find_lyapunov_exponents la m traj_length pts_per_period tol min_tpts =
     (let d = length (ic m);
          tpts = fst (make_trajectory m traj_length pts_per_period);
          traj = snd (make_trajectory m traj_length pts_per_period);
          dt = fin_value (np_median (np_diff tpts));
          u = identity d
      in case lyap_loop la m d dt tol min_tpts (enumerate_zip tpts traj) (u, [], traj_length) of
           Inl err \<Rightarrow> Inl err
         | Inr (u', all_lyap, traj_length') \<Rightarrow>
             if all_lyap = [] then Inl AxisError
             else
               (let final_lyap =
                      map (\<lambda>column. np_div_product (np_sum column) dt traj_length')
                        (columns all_lyap)
                in Inr (rev (np_sort final_lyap))))"

text \<open>
  The shapes the routines keep, for a system of dimension \<open>d\<close>: the finite-difference
  Jacobian and the analytic Jacobian are \<open>d \<times> d\<close>, the inverse of a \<open>d \<times> d\<close> matrix and the two
  factors of its QR decomposition are \<open>d \<times> d\<close>.
\<close>

definition numerics_shapes :: "nat \<Rightarrow> numerics \<Rightarrow> bool" where
  "numerics_shapes d la =
     ((\<forall>f X. is_mat d (jac_fd la f X))
      \<and> (\<forall>M M'. is_mat d M \<and> linalg_inv la M = Inr M' \<longrightarrow> is_mat d M')
      \<and> (\<forall>M. is_mat d M \<longrightarrow> is_mat d (fst (linalg_qr la M)) \<and> is_mat d (snd (linalg_qr la M))))"

definition model_shapes :: "nat \<Rightarrow> model \<Rightarrow> bool" where
  "model_shapes d m = (length (ic m) = d \<and> (\<forall>X t J. jac m X t = Some J \<longrightarrow> is_mat d J))"

text \<open>
  The algorithm as the specification words it (section 4.5), for comparison with the
  loop. Steps 3a and 3b: the Jacobian of a sample, the analytic one when the model has
  one and the finite-difference one otherwise, conjugated by the Jacobian of the
  coordinate change when the model has one, the Jacobian of the inverse change being
  the inverse matrix; it is undefined when the analytic Jacobian is missing at the state
  or the Jacobian of the coordinate change has no inverse.
\<close>

definition local_jacobian :: "numerics \<Rightarrow> model \<Rightarrow> real \<Rightarrow> vec \<Rightarrow> matrix option" where
  "local_jacobian la m t X =
     (let J = (case jac m (ic m) 0 of
                 None \<Rightarrow> Some (jac_fd la (\<lambda>x. rhs m x t) X)
               | Some J0 \<Rightarrow> jac m X t)
      in case postprocessing m of
           None \<Rightarrow> J
         | Some h \<Rightarrow>
             (case linalg_inv la (jac_fd la h X) of
                Inl err \<Rightarrow> None
              | Inr dydh \<Rightarrow> map_option (\<lambda>J. matmul (matmul (jac_fd la h X) J) dydh) J))"

text \<open>
  Steps 3c and 3d, along the Jacobians of the samples after the first: the frame is
  advanced by \<open>(I - J dt)\<^sup>-\<^sup>1\<close>, decomposed, and the logarithms of the absolute diagonal of
  the triangular factor are recorded; the orthogonal factor is the next frame. The rows
  are undefined when a step matrix has no inverse.
\<close>

fun tangent_rows ::
  "numerics \<Rightarrow> nat \<Rightarrow> real \<Rightarrow> matrix \<Rightarrow> matrix list \<Rightarrow> npfloat list list option" where
  "tangent_rows la d dt Q [] = Some []"
| "tangent_rows la d dt Q (J # Js) =
     (case linalg_inv la (mat_sub (identity d) (mat_scale dt J)) of
        Inl err \<Rightarrow> None
      | Inr A \<Rightarrow>
          (case tangent_rows la d dt (fst (linalg_qr la (matmul A Q))) Js of
             None \<Rightarrow> None
           | Some rows \<Rightarrow>
               Some (map (\<lambda>x. np_log (Fin \<bar>x\<bar>)) (diagonal (snd (linalg_qr la (matmul A Q))))
                     # rows)))"

text \<open>
  Step 3e: the pass with index \<open>i\<close> and recorded row \<open>row\<close> meets the early-stopping
  test when \<open>i\<close> is past the minimum count and some entry of the row is below the
  tolerance in magnitude.
\<close>

definition stops_early :: "real \<Rightarrow> int \<Rightarrow> nat \<Rightarrow> npfloat list \<Rightarrow> bool" where
  "stops_early tol min_tpts i row =
     (min_tpts < int i \<and> list_ex (\<lambda>x. np_less (np_abs x) (Fin tol)) row)"

text \<open>
  The effective trajectory length after the passes \<open>k, k + 1, \<dots>\<close> that recorded \<open>rows\<close>,
  starting from \<open>L\<close>: every pass that meets the test sets the length to its index, so the
  length stays \<open>L\<close> when no pass meets the test and is the index of the last pass that
  meets it otherwise.
\<close>

definition final_length ::
  "real \<Rightarrow> int \<Rightarrow> nat \<Rightarrow> int \<Rightarrow> npfloat list list \<Rightarrow> int \<Rightarrow> bool" where
  "final_length tol min_tpts k L rows L' =
     ((L' = L \<and> (\<forall>p<length rows. \<not> stops_early tol min_tpts (k + p) (rows ! p)))
      \<or> (\<exists>p<length rows. L' = int (k + p) \<and> stops_early tol min_tpts (k + p) (rows ! p)
            \<and> (\<forall>q. p < q \<and> q < length rows \<longrightarrow> \<not> stops_early tol min_tpts (k + q) (rows ! q))))"

text \<open>
  An instance used to exercise the theorems: the decoupled linear system
  \<open>x' = -x, y' = y / 2\<close> sampled at the times \<open>0, 1, 2\<close>, with the closed-form inverse of a
  \<open>2 \<times> 2\<close> matrix. Every matrix the run decomposes is diagonal with a positive diagonal,
  for which the orthogonal factor is the identity and the triangular factor the matrix.
\<close>

definition inv2 :: "matrix \<Rightarrow> py_error + matrix" where
  "inv2 M =
     (case M of
        [[a, b], [c, e]] \<Rightarrow>
          (if a * e - b * c = 0 then Inl LinAlgError
           else Inr [[e / (a * e - b * c), - b / (a * e - b * c)],
                     [- c / (a * e - b * c), a / (a * e - b * c)]])
      | _ \<Rightarrow> Inl LinAlgError)"

definition example_numerics :: numerics where
  "example_numerics =
     \<lparr>jac_fd = (\<lambda>f X. identity 2), linalg_inv = inv2, linalg_qr = (\<lambda>M. (identity 2, M))\<rparr>"

definition example_model :: model where
  "example_model =
     \<lparr>ic = [1, 1],
      make_trajectory = (\<lambda>n p. ([0, 1, 2], [[1, 1], [1, 1], [1, 1]])),
      rhs = (\<lambda>X t. [- (X ! 0), X ! 1 / 2]),
      jac = (\<lambda>X t. Some [[- 1, 0], [0, 1 / 2]]),
      postprocessing = None\<rparr>"

text \<open>
  A second instance: the system \<open>x' = x, y' = y\<close> sampled at the same times. Its Jacobian
  is the identity and the step is \<open>1\<close>, so the matrix \<open>I - J dt\<close> of the backward Euler
  update is the zero matrix.
\<close>

definition singular_model :: model where
  "singular_model =
     \<lparr>ic = [1, 1],
      make_trajectory = (\<lambda>n p. ([0, 1, 2], [[1, 1], [1, 1], [1, 1]])),
      rhs = (\<lambda>X t. [X ! 0, X ! 1]),
      jac = (\<lambda>X t. Some [[1, 0], [0, 1]]),
      postprocessing = None\<rparr>"

subsection \<open>Maximum Lyapunov exponent\<close>

text \<open>
  \<^verbatim>\<open>
  def find_max_lyapunov(spectrum0):
      max_magnitude_number = spectrum0[0]
      for exp in spectrum0[1:]:
          if abs(exp) > abs(max_magnitude_number):
              max_exp = exp
      return max_exp
  \<close>
  The loop state is the binding of \<open>max_exp\<close>: \<open>None\<close> while the name is unbound.
  \<open>max_magnitude_number\<close> is never assigned in the loop, so it is a parameter of the scan.
\<close>

fun max_scan :: "real \<Rightarrow> real list \<Rightarrow> real option \<Rightarrow> real option" where
  "max_scan max_magnitude_number [] max_exp = max_exp"
| "max_scan max_magnitude_number (e # rest) max_exp =
     max_scan max_magnitude_number rest
       (if \<bar>e\<bar> > \<bar>max_magnitude_number\<bar> then Some e else max_exp)"

definition find_max_lyapunov :: "real list \<Rightarrow> py_error + real" where
  "find_max_lyapunov spectrum0 =
     (case spectrum0 of
        [] \<Rightarrow> Inl IndexError
      | max_magnitude_number # rest \<Rightarrow>
          (case max_scan max_magnitude_number rest None of
             None \<Rightarrow> Inl UnboundLocalError
           | Some max_exp \<Rightarrow> Inr max_exp))"

subsection \<open>Kaplan-Yorke dimension\<close>

text \<open>
  \<^verbatim>\<open>
  def kaplan_yorke_dimension(spectrum0):
      spectrum = np.sort(spectrum0)[::-1]
      d = len(spectrum)
      cspec = np.cumsum(spectrum)
      j = np.max(np.where(cspec >= 0))
      if j > d - 2:
          j = d - 2
          warnings.warn("Cumulative sum of Lyapunov exponents never crosses zero. ...")
      dky = 1 + j + cspec[j] / np.abs(spectrum[j + 1])
      return dky
  \<close>
  The result carries the warnings the call emitted through \<^verbatim>\<open>warnings.warn\<close>.
  The division is one of numpy doubles: a zero divisor gives an infinity or NaN, not an
  exception.
\<close>

definition ky_warning :: string where
  "ky_warning = ''Cumulative sum of Lyapunov exponents never crosses zero. System may be ill-posed or undersampled.''"

definition kaplan_yorke_dimension :: "real list \<Rightarrow> py_error + npfloat \<times> string list" where
  "kaplan_yorke_dimension spectrum0 =
     (let spectrum = rev (sort spectrum0);
          d = int (length spectrum);
          cspec = np_cumsum spectrum
      in case np_max (np_where_ge0 cspec) of
           Inl err \<Rightarrow> Inl err
         | Inr j0 \<Rightarrow>
             (let j = (if int j0 > d - 2 then d - 2 else int j0);
                  warned = (if int j0 > d - 2 then [ky_warning] else [])
              in case py_index cspec j of
                   Inl err \<Rightarrow> Inl err
                 | Inr c \<Rightarrow>
                     (case py_index spectrum (j + 1) of
                        Inl err \<Rightarrow> Inl err
                      | Inr s \<Rightarrow>
                          Inr (np_add (Fin (1 + real_of_int j)) (np_div (Fin c) (Fin \<bar>s\<bar>)),
                               warned))))"

subsection \<open>Multiscale entropy\<close>

text \<open>
  \<^verbatim>\<open>
  try:
      import neurokit2
      has_neurokit = True
  except:
      warnings.warn("Neurokit2 must be installed before computing multiscale entropy")
      has_neurokit = False
  \<close>
  The module body runs once, when the module is loaded; whether the import succeeds is
  a fact of the environment and the parameter of \<open>load_module\<close>. No function of the
  module assigns \<open>has_neurokit\<close>.
\<close>

record module_state =
  has_neurokit :: bool
  load_warnings :: "string list"

definition load_module :: "bool \<Rightarrow> module_state" where
  "load_module neurokit_importable =
     (if neurokit_importable then \<lparr>has_neurokit = True, load_warnings = []\<rparr>
      else \<lparr>has_neurokit = False,
             load_warnings = [''Neurokit2 must be installed before computing multiscale entropy'']\<rparr>)"

text \<open>
  \<^verbatim>\<open>
  def mse_mv(traj):
      if not has_neurokit:
          raise Exception("NeuroKit not installed; multiscale entropy cannot be computed.")
      mmse_opts = {"composite": True, "fuzzy": True}
      if len(traj.shape) == 1:
          mmse = neurokit2.entropy_multiscale(dimension=2, **mmse_opts)[0]
          return mmse
      traj = standardize_ts(traj)
      all_mse = list()
      for sol_coord in traj.T:
          all_mse.append(
              neurokit2.entropy_multiscale(sol_coord, dimension=2, **mmse_opts)[0])
      return np.median(all_mse)
  \<close>
  \<^verbatim>\<open>neurokit2.entropy_multiscale\<close> and \<^verbatim>\<open>dysts.utils.standardize_ts\<close> are not code of
  the repository: the entropy estimate of a signal (with the options of the source)
  and the standardisation are parameters. \<open>signal\<close> is the first, required parameter of
  \<^verbatim>\<open>entropy_multiscale\<close>; a call that passes no signal is refused by Python with
  \<open>TypeError\<close> before the function body runs. The result is paired with the calls made
  to the backend, each with the signal it was given.
\<close>

datatype ndarray = Array1 "real list" | Array2 "real list list"

type_synonym backend_call = "real list option"

definition entropy_multiscale :: "(real list \<Rightarrow> real) \<Rightarrow> backend_call \<Rightarrow> py_error + real" where
  "entropy_multiscale estimate signal =
     (case signal of None \<Rightarrow> Inl TypeError | Some xs \<Rightarrow> Inr (estimate xs))"

definition mse_mv ::
  "module_state \<Rightarrow> (real list \<Rightarrow> real) \<Rightarrow> (real list list \<Rightarrow> real list list) \<Rightarrow> ndarray
     \<Rightarrow> (py_error + npfloat) \<times> backend_call list" where
  "mse_mv m estimate standardize_ts traj =
     (if \<not> has_neurokit m then
        (Inl (Exception ''NeuroKit not installed; multiscale entropy cannot be computed.''), [])
      else case traj of
        Array1 xs \<Rightarrow>
          (case entropy_multiscale estimate None of
             Inl err \<Rightarrow> (Inl err, [None])
           | Inr mmse \<Rightarrow> (Inr (Fin mmse), [None]))
      | Array2 rows \<Rightarrow>
          (let cols = columns (standardize_ts rows)
           in (Inr (np_median (map estimate cols)), map Some cols)))"

subsection \<open>Principal component analysis\<close>

text \<open>
  \<^verbatim>\<open>
  def pca(data, threshold=0.90):
      pca = PCA()
      pca.fit(data)
      cumulative_explained_variance = np.cumsum(pca.explained_variance_ratio_)
      n_components = np.argmax(cumulative_explained_variance >= threshold) + 1
      return n_components
  \<close>
  \<^verbatim>\<open>sklearn.decomposition.PCA\<close> is not code of the repository: the fit is the parameter
  \<open>explained_variance_ratio\<close>, the array \<^verbatim>\<open>explained_variance_ratio_\<close> of the fitted
  object for the given data.
\<close>

definition pca :: "(real list list \<Rightarrow> real list) \<Rightarrow> real list list \<Rightarrow> real \<Rightarrow> py_error + nat" where
  "pca explained_variance_ratio data threshold =
     (let cumulative_explained_variance = np_cumsum (explained_variance_ratio data)
      in case np_argmax (map (\<lambda>c. c \<ge> threshold) cumulative_explained_variance) of
           Inl err \<Rightarrow> Inl err
         | Inr k \<Rightarrow> Inr (k + 1))"

subsection \<open>Pesin entropy\<close>

text \<open>
  \<^verbatim>\<open>
  def pesin(lyapval):
      all_estimates_lyap = list()
      all_estimates_lyap.append(lyapval)
      all_estimates_pesin = list()
      all_estimates_pesin.append(np.sum(np.array(lyapval)[np.array(lyapval) > 0]))
      pesin_entropy = np.median(all_estimates_pesin)
      return pesin_entropy
  \<close>
\<close>

definition pesin :: "real list \<Rightarrow> npfloat" where
  "pesin lyapval =
     (let all_estimates_pesin = [] @ [sum_list (filter (\<lambda>x. x > 0) lyapval)]
      in np_median all_estimates_pesin)"

section \<open>Properties\<close>

subsection \<open>find_max_lyapunov\<close>

lemma max_scan_no_update:
  "\<forall>e\<in>set rest. \<not> \<bar>e\<bar> > \<bar>m\<bar> \<Longrightarrow> max_scan m rest b = b"
  by (induction rest arbitrary: b) auto

lemma max_scan_append:
  "max_scan m (xs @ ys) b = max_scan m ys (max_scan m xs b)"
  by (induction xs arbitrary: b) auto

lemma max_scan_last_exceeding:
  "max_scan m rest b =
     (case filter (\<lambda>e. \<bar>e\<bar> > \<bar>m\<bar>) rest of [] \<Rightarrow> b | z # zs \<Rightarrow> Some (last (z # zs)))"
proof (induction rest arbitrary: b)
  case Nil
  show ?case by simp
next
  case (Cons e rest)
  show ?case
  proof (cases "\<bar>e\<bar> > \<bar>m\<bar>")
    case True
    then show ?thesis
      using Cons.IH [of "Some e"] by (simp split: list.splits)
  next
    case False
    then show ?thesis
      using Cons.IH [of b] by simp
  qed
qed

lemma find_max_lyapunov_empty: "find_max_lyapunov [] = Inl IndexError"
  by (simp add: find_max_lyapunov_def)

text \<open>
  C6. For a spectrum that has a first element and in which no later element has an
  absolute value strictly larger than the first element's, the loop never binds
  \<open>max_exp\<close> and the \<open>return\<close> raises the unbound-variable error. A one-element
  spectrum and a spectrum in descending order of magnitude are instances.
\<close>

theorem find_max_lyapunov_unassigned:
  assumes "spectrum0 = first # rest"
    and "\<forall>e\<in>set rest. \<not> \<bar>e\<bar> > \<bar>first\<bar>"
  shows "find_max_lyapunov spectrum0 = Inl UnboundLocalError"
  using assms by (simp add: find_max_lyapunov_def max_scan_no_update)

theorem find_max_lyapunov_unassigned_witness:
  "find_max_lyapunov [5] = Inl UnboundLocalError
   \<and> find_max_lyapunov [3, -2, 1] = Inl UnboundLocalError"
  using find_max_lyapunov_unassigned [of "[5]" 5 "[]"]
    find_max_lyapunov_unassigned [of "[3, -2, 1]" 3 "[-2, 1]"]
  by simp

text \<open>
  C7. The scan compares every later element with the first element, not with a running
  maximum, and keeps the last one that exceeds it: on \<open>[1, 5, 3]\<close> the function returns
  \<open>3\<close>, although \<open>5\<close> has the largest magnitude among the elements after index 0.
\<close>

theorem find_max_lyapunov_returns_last_exceeding:
  "find_max_lyapunov [1, 5, 3] = Inr 3"
  by (simp add: find_max_lyapunov_def)

text \<open>
  What the scan computes: the last element after index 0 whose magnitude exceeds that of
  the first element; the unbound-variable error when there is none.
\<close>

theorem find_max_lyapunov_last_exceeding:
  "find_max_lyapunov (first # rest) =
     (case filter (\<lambda>e. \<bar>e\<bar> > \<bar>first\<bar>) rest of
        [] \<Rightarrow> Inl UnboundLocalError
      | z # zs \<Rightarrow> Inr (last (z # zs)))"
  by (simp add: find_max_lyapunov_def max_scan_last_exceeding split: list.splits)

subsection \<open>numpy helpers\<close>

lemma length_cumsum_from [simp]: "length (cumsum_from a xs) = length xs"
  by (induction xs arbitrary: a) auto

lemma cumsum_from_nth:
  "i < length xs \<Longrightarrow> cumsum_from a xs ! i = a + sum_list (take (Suc i) xs)"
proof (induction xs arbitrary: a i)
  case Nil
  then show ?case by simp
next
  case (Cons x xs)
  show ?case
  proof (cases i)
    case 0
    then show ?thesis by simp
  next
    case (Suc k)
    with Cons.prems have "k < length xs" by simp
    from Cons.IH [OF this, of "a + x"] Suc show ?thesis by (simp add: add.assoc)
  qed
qed

lemma length_np_cumsum [simp]: "length (np_cumsum xs) = length xs"
  by (simp add: np_cumsum_def)

lemma np_cumsum_nth: "i < length xs \<Longrightarrow> np_cumsum xs ! i = sum_list (take (Suc i) xs)"
  by (simp add: np_cumsum_def cumsum_from_nth)

lemma np_max_Max:
  assumes "xs \<noteq> []"
  shows "np_max xs = Inr (Max (set xs))"
proof (cases xs)
  case Nil
  with assms show ?thesis by simp
next
  case (Cons x rest)
  have "Max (set (x # rest)) = fold max rest x" by (rule Max.set_eq_fold)
  with Cons show ?thesis by (simp add: np_max_def)
qed

lemma np_max_where_ge0:
  assumes "J < length a" and "0 \<le> a ! J" and "\<forall>i. J < i \<and> i < length a \<longrightarrow> a ! i < 0"
  shows "np_max (np_where_ge0 a) = Inr J"
proof -
  let ?S = "set (np_where_ge0 a)"
  have mem: "J \<in> ?S" using assms by (simp add: np_where_ge0_def)
  have ub: "i \<le> J" if "i \<in> ?S" for i
  proof (rule ccontr)
    assume "\<not> i \<le> J"
    with that assms(3) show False by (auto simp: np_where_ge0_def not_le)
  qed
  have "Max ?S = J"
    by (rule Max_eqI) (use mem ub in auto)
  moreover have "np_where_ge0 a \<noteq> []" using mem by auto
  ultimately show ?thesis by (simp add: np_max_Max)
qed

lemma np_max_where_ge0_none:
  "\<forall>i<length a. a ! i < 0 \<Longrightarrow> np_max (np_where_ge0 a) = Inl ValueError"
  by (simp add: np_max_def np_where_ge0_def filter_empty_conv not_le [symmetric] split: list.splits)

lemma py_index_nonneg: "0 \<le> i \<Longrightarrow> i < int (length xs) \<Longrightarrow> py_index xs i = Inr (xs ! nat i)"
  by (simp add: py_index_def)

lemma py_index_last: "xs \<noteq> [] \<Longrightarrow> py_index xs (- 1) = Inr (xs ! (length xs - 1))"
  by (cases xs) (simp_all add: py_index_def)

subsection \<open>kaplan_yorke_dimension\<close>

text \<open>
  C4, as amended. Let \<open>spectrum\<close> be the input sorted in descending order, \<open>d\<close> its
  length, and let \<open>J\<close> be the largest index whose cumulative sum is non-negative
  (the hypotheses say that such an index exists and that \<open>J\<close> is the largest). The
  function does not use \<open>J\<close> itself but \<open>j = min J (d - 2)\<close>, emits the warning exactly when
  \<open>J\<close> was clamped, and returns \<open>1 + j + cumsum[j] / |spectrum[j + 1]|\<close>, the division being
  that of doubles. For \<open>d = 1\<close> the clamped index is \<open>-1\<close>, which Python reads as the last
  element: \<open>cumsum[-1] = cumsum[0]\<close>, written \<open>j mod d\<close> below.
\<close>

theorem kaplan_yorke_dimension_clamped:
  fixes spectrum0 :: "real list" and J :: nat
  assumes "J < length spectrum0"
    and "0 \<le> sum_list (take (Suc J) (rev (sort spectrum0)))"
    and "\<forall>i. J < i \<and> i < length spectrum0 \<longrightarrow> sum_list (take (Suc i) (rev (sort spectrum0))) < 0"
  shows "kaplan_yorke_dimension spectrum0 =
     (let spectrum = rev (sort spectrum0);
          d = int (length spectrum0);
          j = min (int J) (d - 2)
      in Inr (np_add (Fin (1 + real_of_int j))
                (np_div (Fin (sum_list (take (Suc (nat (j mod d))) spectrum)))
                        (Fin \<bar>spectrum ! nat (j + 1)\<bar>)),
              if int J > d - 2 then [ky_warning] else []))"
proof -
  define sp where "sp = rev (sort spectrum0)"
  define cs where "cs = np_cumsum sp"
  define d where "d = int (length spectrum0)"
  define j where "j = min (int J) (d - 2)"
  have len: "length sp = length spectrum0" "length cs = length spectrum0"
    by (simp_all add: sp_def cs_def)
  have dpos: "0 < d" "int J < d" using assms(1) by (auto simp: d_def)
  have j0: "np_max (np_where_ge0 cs) = Inr J"
    by (rule np_max_where_ge0) (use assms len in \<open>simp_all add: cs_def sp_def np_cumsum_nth\<close>)
  have jeq: "(if int J > d - 2 then d - 2 else int J) = j"
    by (simp add: j_def min_def)
  have jlo: "- 1 \<le> j" "j \<le> d - 2" using dpos by (simp_all add: j_def)
  have k: "nat (j mod d) < length sp"
    using dpos len by (simp add: d_def nat_less_iff)
  have c: "py_index cs j = Inr (sum_list (take (Suc (nat (j mod d))) sp))"
  proof (cases "j = - 1")
    case True
    then have "d = 1" using dpos by (simp add: j_def min_def split: if_splits)
    then have one: "length cs = 1" using len by (simp add: d_def)
    then have "py_index cs (- 1) = Inr (cs ! 0)"
      by (simp add: py_index_def)
    moreover have "cs ! 0 = sum_list (take (Suc 0) sp)"
      unfolding cs_def by (rule np_cumsum_nth) (use one len in simp)
    ultimately show ?thesis using True \<open>d = 1\<close> by simp
  next
    case False
    with jlo have nonneg: "0 \<le> j" by linarith
    then have m: "j mod d = j" using jlo by (intro mod_pos_pos_trivial) linarith+
    have "py_index cs j = Inr (cs ! nat j)"
      by (rule py_index_nonneg) (use nonneg jlo len in \<open>simp_all add: d_def\<close>)
    moreover have "cs ! nat j = sum_list (take (Suc (nat j)) sp)"
      unfolding cs_def by (rule np_cumsum_nth) (use k m in simp)
    ultimately show ?thesis using m by simp
  qed
  have s: "py_index sp (j + 1) = Inr (sp ! nat (j + 1))"
    by (rule py_index_nonneg) (use jlo len in \<open>simp_all add: d_def\<close>)
  have "kaplan_yorke_dimension spectrum0 =
      (case np_max (np_where_ge0 cs) of
         Inl err \<Rightarrow> Inl err
       | Inr j0 \<Rightarrow>
           (case py_index cs (if int j0 > d - 2 then d - 2 else int j0) of
              Inl err \<Rightarrow> Inl err
            | Inr c \<Rightarrow>
                (case py_index sp ((if int j0 > d - 2 then d - 2 else int j0) + 1) of
                   Inl err \<Rightarrow> Inl err
                 | Inr s \<Rightarrow>
                     Inr (np_add (Fin (1 + real_of_int (if int j0 > d - 2 then d - 2 else int j0)))
                            (np_div (Fin c) (Fin \<bar>s\<bar>)),
                          if int j0 > d - 2 then [ky_warning] else []))))"
    by (simp only: kaplan_yorke_dimension_def Let_def sp_def cs_def d_def length_rev length_sort)
  also have "\<dots> =
      Inr (np_add (Fin (1 + real_of_int j))
             (np_div (Fin (sum_list (take (Suc (nat (j mod d))) sp))) (Fin \<bar>sp ! nat (j + 1)\<bar>)),
           if int J > d - 2 then [ky_warning] else [])"
    by (simp only: j0 sum.case jeq c s)
  finally show ?thesis
    by (simp only: Let_def sp_def d_def j_def)
qed

theorem kaplan_yorke_dimension_clamped_witness:
  "kaplan_yorke_dimension [1, - 2] = Inr (Fin (3 / 2), [])"
  using kaplan_yorke_dimension_clamped [of 0 "[1, - 2]"] by (simp add: less_Suc_eq)

text \<open>
  C4 as stated fails where the guard \<open>j > d - 2\<close> fires. On \<open>[2, 1]\<close> the cumulative sums
  are \<open>[2, 3]\<close> and the largest index with a non-negative sum is \<open>1\<close>; the stated formula
  would read \<open>spectrum[2]\<close>, which does not exist, while the function clamps the index to
  \<open>0\<close>, warns and returns \<open>1 + 0 + 2 / 1 = 3\<close>.
\<close>

theorem kaplan_yorke_dimension_unclamped_counterexample:
  "kaplan_yorke_dimension [2, 1] = Inr (Fin 3, [ky_warning])
   \<and> np_max (np_where_ge0 (np_cumsum (rev (sort [2, 1])))) = Inr 1
   \<and> py_index (rev (sort [2, 1 :: real])) (1 + 1) = Inl IndexError"
  by (simp add: kaplan_yorke_dimension_def np_cumsum_def np_where_ge0_def np_max_def
      py_index_def)

text \<open>
  C5. When every cumulative sum is negative, \<^verbatim>\<open>np.where(cspec >= 0)\<close> is empty and
  \<^verbatim>\<open>np.max\<close> raises \<open>ValueError\<close>: the guard that clamps and warns is never reached.
\<close>

theorem kaplan_yorke_dimension_all_negative:
  assumes "\<forall>i<length spectrum0. sum_list (take (Suc i) (rev (sort spectrum0))) < 0"
  shows "kaplan_yorke_dimension spectrum0 = Inl ValueError"
proof -
  have "np_max (np_where_ge0 (np_cumsum (rev (sort spectrum0)))) = Inl ValueError"
    by (rule np_max_where_ge0_none) (use assms in \<open>simp add: np_cumsum_nth\<close>)
  then show ?thesis
    by (simp add: kaplan_yorke_dimension_def Let_def)
qed

theorem kaplan_yorke_dimension_all_negative_witness:
  "kaplan_yorke_dimension [- 1, - 2] = Inl ValueError"
  using kaplan_yorke_dimension_all_negative [of "[- 1, - 2]"] by (simp add: less_Suc_eq)

subsection \<open>mse_mv\<close>

text \<open>
  C8. With the backend present, the branch for a one-dimensional trajectory calls
  \<^verbatim>\<open>entropy_multiscale\<close> without the trajectory: the only backend call carries no signal
  and the call raises \<open>TypeError\<close>, whatever the trajectory is. The branch for two
  dimensions passes each column.
\<close>

theorem mse_mv_single_channel_no_signal:
  "mse_mv (load_module True) estimate standardize_ts (Array1 xs) = (Inl TypeError, [None])"
  by (simp add: mse_mv_def load_module_def entropy_multiscale_def)

text \<open>
  C9. When the import of the backend failed at load time, \<open>mse_mv\<close> raises at its first
  statement for every trajectory: it returns no value and makes no backend call.
\<close>

theorem mse_mv_backend_absent:
  "mse_mv (load_module False) estimate standardize_ts traj =
     (Inl (Exception ''NeuroKit not installed; multiscale entropy cannot be computed.''), [])"
  by (simp add: mse_mv_def load_module_def)

subsection \<open>pca\<close>

lemma first_true_Some:
  "k < length bs \<Longrightarrow> bs ! k \<Longrightarrow> \<forall>i<k. \<not> bs ! i \<Longrightarrow> first_true bs = Some k"
proof (induction bs arbitrary: k)
  case Nil
  then show ?case by simp
next
  case (Cons b bs)
  show ?case
  proof (cases k)
    case 0
    with Cons.prems show ?thesis by simp
  next
    case (Suc n)
    with Cons.prems have "\<not> b" by auto
    moreover have "first_true bs = Some n"
    proof (rule Cons.IH)
      show "n < length bs" using Cons.prems Suc by simp
      show "bs ! n" using Cons.prems Suc by simp
      show "\<forall>i<n. \<not> bs ! i"
      proof (intro allI impI)
        fix i assume "i < n"
        then have "Suc i < k" using Suc by simp
        with Cons.prems(3) have "\<not> (b # bs) ! Suc i" by blast
        then show "\<not> bs ! i" by simp
      qed
    qed
    ultimately show ?thesis using Suc by simp
  qed
qed

lemma first_true_None: "\<forall>b\<in>set bs. \<not> b \<Longrightarrow> first_true bs = None"
  by (induction bs) auto

lemma ex_least_index:
  fixes P :: "nat \<Rightarrow> bool"
  assumes "P m"
  shows "\<exists>k\<le>m. P k \<and> (\<forall>i<k. \<not> P i)"
proof -
  have "P (LEAST k. P k)" using assms by (rule LeastI)
  moreover have "(LEAST k. P k) \<le> m" using assms by (rule Least_le)
  moreover have "\<forall>i<(LEAST k. P k). \<not> P i" using not_less_Least by blast
  ultimately show ?thesis by blast
qed

lemma pca_first_reaching_aux:
  fixes evr :: "real list list \<Rightarrow> real list"
  assumes "m < length (evr data)"
    and "threshold \<le> sum_list (take (Suc m) (evr data))"
  shows "\<exists>k\<le>m. pca evr data threshold = Inr (k + 1)
           \<and> threshold \<le> sum_list (take (k + 1) (evr data))
           \<and> (\<forall>i<k. sum_list (take (i + 1) (evr data)) < threshold)"
proof -
  let ?cum = "\<lambda>i. sum_list (take (Suc i) (evr data))"
  obtain k where k: "k \<le> m" "threshold \<le> ?cum k" "\<forall>i<k. \<not> threshold \<le> ?cum i"
    using ex_least_index [of "\<lambda>i. threshold \<le> ?cum i" m] assms(2) by blast
  let ?bs = "map (\<lambda>c. c \<ge> threshold) (np_cumsum (evr data))"
  have klen: "k < length (evr data)" using k(1) assms(1) by simp
  have "first_true ?bs = Some k"
  proof (rule first_true_Some)
    show "k < length ?bs" using klen by simp
    show "?bs ! k" using klen k(2) by (simp add: np_cumsum_nth)
    show "\<forall>i<k. \<not> ?bs ! i" using klen k(3) by (simp add: np_cumsum_nth)
  qed
  moreover have "length ?bs = length (evr data)" by simp
  then have "?bs \<noteq> []" using klen by (metis length_0_conv not_less0)
  ultimately have "pca evr data threshold = Inr (k + 1)"
    by (simp add: pca_def np_argmax_def Let_def)
  with k show ?thesis by (auto simp: not_le)
qed

text \<open>
  C10. Write \<open>cum k\<close> for the sum of the first \<open>k + 1\<close> explained-variance ratios of the
  fit. If the cumulative sequence reaches the threshold at some position, \<open>pca\<close> returns
  the 1-indexed first such position. The ratios of a fit sum to one, so for a threshold
  below one the last position is such a position. For a trajectory on a line the first
  ratio is one (the others are zero), and \<open>pca\<close> returns \<open>1\<close> for every threshold up to one.
\<close>

theorem pca_first_reaching:
  fixes explained_variance_ratio :: "real list list \<Rightarrow> real list"
  shows "(\<forall>m. m < length (explained_variance_ratio data)
              \<and> threshold \<le> sum_list (take (Suc m) (explained_variance_ratio data))
            \<longrightarrow> (\<exists>k\<le>m. pca explained_variance_ratio data threshold = Inr (k + 1)
                   \<and> threshold \<le> sum_list (take (k + 1) (explained_variance_ratio data))
                   \<and> (\<forall>i<k. sum_list (take (i + 1) (explained_variance_ratio data)) < threshold)))
       \<and> (\<forall>rest. explained_variance_ratio data = 1 # rest \<and> threshold \<le> 1
            \<longrightarrow> pca explained_variance_ratio data threshold = Inr 1)"
proof (intro conjI allI impI)
  fix m
  assume "m < length (explained_variance_ratio data)
     \<and> threshold \<le> sum_list (take (Suc m) (explained_variance_ratio data))"
  then show "\<exists>k\<le>m. pca explained_variance_ratio data threshold = Inr (k + 1)
       \<and> threshold \<le> sum_list (take (k + 1) (explained_variance_ratio data))
       \<and> (\<forall>i<k. sum_list (take (i + 1) (explained_variance_ratio data)) < threshold)"
    using pca_first_reaching_aux [of m explained_variance_ratio data threshold] by blast
next
  fix rest
  assume a: "explained_variance_ratio data = 1 # rest \<and> threshold \<le> 1"
  then show "pca explained_variance_ratio data threshold = Inr 1"
    using pca_first_reaching_aux [of 0 explained_variance_ratio data threshold] by simp
qed

theorem pca_first_reaching_witness:
  "pca (\<lambda>data. [1, 0]) [[0, 0], [1, 2], [2, 4]] (9 / 10) = Inr 1
   \<and> pca (\<lambda>data. [6 / 10, 3 / 10, 1 / 10]) [[0, 0, 1], [1, 2, 3], [2, 4, 0], [1, 1, 1]] (9 / 10)
       = Inr 2"
proof -
  let ?E = "\<lambda>data :: real list list. [6 / 10, 3 / 10, 1 / 10 :: real]"
  let ?D = "[[0, 0, 1], [1, 2, 3], [2, 4, 0], [1, 1, 1 :: real]]"
  have line: "pca (\<lambda>data. [1, 0]) [[0, 0], [1, 2], [2, 4]] (9 / 10) = Inr 1"
    using pca_first_reaching [of "\<lambda>data. [1, 0]" "[[0, 0], [1, 2], [2, 4]]" "9 / 10"]
    by simp
  have reach: "2 < length (?E ?D) \<and> 9 / 10 \<le> sum_list (take (Suc 2) (?E ?D))"
    by (simp add: numeral_2_eq_2)
  have "\<forall>m. m < length (?E ?D) \<and> 9 / 10 \<le> sum_list (take (Suc m) (?E ?D))
          \<longrightarrow> (\<exists>k\<le>m. pca ?E ?D (9 / 10) = Inr (k + 1)
                 \<and> 9 / 10 \<le> sum_list (take (k + 1) (?E ?D))
                 \<and> (\<forall>i<k. sum_list (take (i + 1) (?E ?D)) < 9 / 10))"
    using pca_first_reaching [of ?E ?D "9 / 10"] by (rule conjunct1)
  with reach obtain k where k: "k \<le> 2" "pca ?E ?D (9 / 10) = Inr (k + 1)"
    "9 / 10 \<le> sum_list (take (k + 1) (?E ?D))"
    "\<forall>i<k. sum_list (take (i + 1) (?E ?D)) < 9 / 10"
    by blast
  from k(1) have "k = 0 \<or> k = 1 \<or> k = 2" by arith
  then have "k = 1"
  proof (elim disjE)
    assume "k = 0"
    with k(3) show ?thesis by simp
  next
    assume "k = 1"
    then show ?thesis .
  next
    assume "k = 2"
    then have "(1 :: nat) < k" by simp
    with k(4) have "sum_list (take (1 + 1) (?E ?D)) < 9 / 10" by blast
    then show ?thesis by (simp add: numeral_2_eq_2)
  qed
  with k(2) line show ?thesis by simp
qed

subsection \<open>estimate_powerlaw\<close>

lemma np_min_Min:
  assumes "xs \<noteq> []"
  shows "np_min xs = Inr (Min (set xs))"
proof (cases xs)
  case Nil
  with assms show ?thesis by simp
next
  case (Cons x rest)
  have "Min (set (x # rest)) = fold min rest x" by (rule Min.set_eq_fold)
  with Cons show ?thesis by (simp add: np_min_def)
qed

lemma foldl_np_add_Fin: "foldl np_add (Fin a) (map Fin ys) = Fin (a + sum_list ys)"
  by (induction ys arbitrary: a) (simp_all add: add.assoc)

lemma np_sum_Fin: "np_sum (map Fin ys) = Fin (sum_list ys)"
  by (simp add: np_sum_def foldl_np_add_Fin)

lemma sum_list_map_sort:
  fixes g :: "real \<Rightarrow> real"
  shows "sum_list (map g (sort xs)) = sum_list (map g xs)"
proof -
  have "mset (map g (sort xs)) = mset (map g xs)" by simp
  then show ?thesis by (metis sum_mset_sum_list)
qed

lemma log_ratio_sum_zero_iff:
  fixes xs :: "real list"
  assumes "xs \<noteq> []" and "\<forall>x\<in>set xs. 0 < x"
  shows "(\<Sum>x\<leftarrow>xs. ln (x / Min (set xs))) = 0 \<longleftrightarrow> (\<forall>x\<in>set xs. x = Min (set xs))"
proof -
  let ?m = "Min (set xs)"
  have m: "?m \<in> set xs" using assms(1) by (intro Min_in) auto
  then have mpos: "0 < ?m" using assms(2) by blast
  have ge: "0 \<le> ln (x / ?m)" if "x \<in> set xs" for x
  proof -
    have "?m \<le> x" using that by simp
    then have "1 \<le> x / ?m" using mpos by (simp add: le_divide_eq)
    then show ?thesis by simp
  qed
  have "(\<Sum>x\<leftarrow>xs. ln (x / ?m)) = 0 \<longleftrightarrow> (\<forall>y\<in>set (map (\<lambda>x. ln (x / ?m)) xs). y = 0)"
    by (rule sum_list_nonneg_eq_0_iff) (use ge in auto)
  also have "\<dots> \<longleftrightarrow> (\<forall>x\<in>set xs. ln (x / ?m) = 0)" by auto
  also have "\<dots> \<longleftrightarrow> (\<forall>x\<in>set xs. x = ?m)"
  proof (intro ball_cong refl)
    fix x assume "x \<in> set xs"
    then have "0 < x / ?m" using assms(2) mpos by simp
    then have "ln (x / ?m) = 0 \<longleftrightarrow> x / ?m = 1" by (rule ln_eq_zero_iff)
    also have "\<dots> \<longleftrightarrow> x = ?m" using mpos by (simp add: divide_eq_eq)
    finally show "ln (x / ?m) = 0 \<longleftrightarrow> x = ?m" .
  qed
  finally show ?thesis .
qed

lemma estimate_powerlaw_positive:
  assumes "data0 \<noteq> []" and "\<forall>x\<in>set data0. 0 < x"
  shows "estimate_powerlaw data0 =
     Inr (if (\<Sum>x\<leftarrow>data0. ln (x / Min (set data0))) = 0 then PInf
          else Fin (1 + real (length data0) / (\<Sum>x\<leftarrow>data0. ln (x / Min (set data0)))))"
proof -
  let ?m = "Min (set data0)"
  let ?s = "\<Sum>x\<leftarrow>data0. ln (x / ?m)"
  have "sort data0 \<noteq> []" using assms(1) by (metis length_0_conv length_sort)
  then have xmin: "np_min (sort data0) = Inr ?m" by (simp add: np_min_Min)
  have "?m \<in> set data0" using assms(1) by (intro Min_in) auto
  then have mpos: "0 < ?m" using assms(2) by blast
  have "map (\<lambda>x. np_log (np_div (Fin x) (Fin ?m))) (sort data0)
      = map Fin (map (\<lambda>x. ln (x / ?m)) (sort data0))"
    using assms(2) mpos by simp
  then have "np_sum (map (\<lambda>x. np_log (np_div (Fin x) (Fin ?m))) (sort data0))
      = Fin (sum_list (map (\<lambda>x. ln (x / ?m)) (sort data0)))"
    by (simp only: np_sum_Fin)
  then have total: "np_sum (map (\<lambda>x. np_log (np_div (Fin x) (Fin ?m))) (sort data0)) = Fin ?s"
    by (simp only: sum_list_map_sort)
  have npos: "0 < real (length data0)" using assms(1) by simp
  have "estimate_powerlaw data0 = Inr (np_add (Fin 1) (np_div (Fin (real (length data0))) (Fin ?s)))"
    by (simp only: estimate_powerlaw_def Let_def xmin sum.case length_sort total)
  also have "\<dots> = Inr (if ?s = 0 then PInf else Fin (1 + real (length data0) / ?s))"
    using npos by simp
  finally show ?thesis .
qed

lemma collect_all_Inr:
  "\<forall>c\<in>set cs. f c = Inr (g c) \<Longrightarrow> collect (map f cs) = Inr (map g cs)"
  by (induction cs) simp_all

lemma columns_rect:
  assumes "rows \<noteq> []" and "\<forall>r\<in>set rows. length r = D"
  shows "columns rows = map (\<lambda>j. map (\<lambda>r. r ! j) rows) [0..<D]"
proof -
  from assms have "ncols rows = D" by (cases rows) (simp_all add: ncols_def)
  then show ?thesis by (simp add: columns_def)
qed

text \<open>
  C3. For a non-empty one-dimensional array of positive values, \<open>xmin\<close> is the minimum
  and the result is \<open>1 + n / \<Sum> ln (x / xmin)\<close> when some value differs from the minimum;
  when all values equal the minimum the sum of logarithms is zero and the result is the
  infinity of the doubles. For a two-dimensional array with \<open>D\<close> columns of positive
  values the result has \<open>D\<close> entries, entry \<open>j\<close> being the result for column \<open>j\<close>. The
  function is a function of its argument: nothing but the returned value is produced.
\<close>

theorem estimate_powerlaw_mle:
  fixes data0 :: "real list" and rows :: "real list list"
  shows
    "(data0 \<noteq> [] \<and> (\<forall>x\<in>set data0. 0 < x) \<longrightarrow>
        ((\<exists>x\<in>set data0. x \<noteq> Min (set data0)) \<longrightarrow>
           estimate_powerlaw data0 =
             Inr (Fin (1 + real (length data0) / (\<Sum>x\<leftarrow>data0. ln (x / Min (set data0))))))
      \<and> ((\<forall>x\<in>set data0. x = Min (set data0)) \<longrightarrow>
           (\<Sum>x\<leftarrow>data0. ln (x / Min (set data0))) = 0
           \<and> estimate_powerlaw data0 = Inr PInf))
   \<and> (rows \<noteq> [] \<and> (\<forall>r\<in>set rows. length r = D \<and> (\<forall>x\<in>set r. 0 < x)) \<longrightarrow>
        (\<exists>ahat. estimate_powerlaw_columns rows = Inr ahat \<and> length ahat = D
           \<and> (\<forall>j<D. estimate_powerlaw (map (\<lambda>r. r ! j) rows) = Inr (ahat ! j))))"
proof (intro conjI impI)
  assume a: "data0 \<noteq> [] \<and> (\<forall>x\<in>set data0. 0 < x)"
  assume "\<exists>x\<in>set data0. x \<noteq> Min (set data0)"
  then have "(\<Sum>x\<leftarrow>data0. ln (x / Min (set data0))) \<noteq> 0"
    using log_ratio_sum_zero_iff [of data0] a by blast
  then show "estimate_powerlaw data0 =
      Inr (Fin (1 + real (length data0) / (\<Sum>x\<leftarrow>data0. ln (x / Min (set data0)))))"
    using estimate_powerlaw_positive [of data0] a by simp
next
  assume a: "data0 \<noteq> [] \<and> (\<forall>x\<in>set data0. 0 < x)"
  assume "\<forall>x\<in>set data0. x = Min (set data0)"
  then show z: "(\<Sum>x\<leftarrow>data0. ln (x / Min (set data0))) = 0"
    using log_ratio_sum_zero_iff [of data0] a by blast
  then show "estimate_powerlaw data0 = Inr PInf"
    using estimate_powerlaw_positive [of data0] a by simp
next
  assume r: "rows \<noteq> [] \<and> (\<forall>r\<in>set rows. length r = D \<and> (\<forall>x\<in>set r. 0 < x))"
  let ?col = "\<lambda>j. map (\<lambda>r. r ! j) rows"
  let ?v = "\<lambda>c :: real list. if (\<Sum>x\<leftarrow>c. ln (x / Min (set c))) = 0 then PInf
          else Fin (1 + real (length c) / (\<Sum>x\<leftarrow>c. ln (x / Min (set c))))"
  have cols: "columns rows = map ?col [0..<D]"
    by (rule columns_rect) (use r in auto)
  have each: "estimate_powerlaw (?col j) = Inr (?v (?col j))" if "j < D" for j
  proof (rule estimate_powerlaw_positive)
    show "?col j \<noteq> []" using r by simp
    show "\<forall>x\<in>set (?col j). 0 < x" using r that by auto
  qed
  then have "\<forall>c\<in>set (columns rows). estimate_powerlaw c = Inr (?v c)"
    unfolding cols by auto
  then have "collect (map estimate_powerlaw (columns rows)) = Inr (map ?v (columns rows))"
    by (rule collect_all_Inr)
  then have res: "estimate_powerlaw_columns rows = Inr (map ?v (columns rows))"
    using r by (simp add: estimate_powerlaw_columns_def)
  show "\<exists>ahat. estimate_powerlaw_columns rows = Inr ahat \<and> length ahat = D
      \<and> (\<forall>j<D. estimate_powerlaw (map (\<lambda>r. r ! j) rows) = Inr (ahat ! j))"
  proof (intro exI conjI allI impI)
    show "estimate_powerlaw_columns rows = Inr (map ?v (columns rows))" by (rule res)
    show "length (map ?v (columns rows)) = D" by (simp add: cols)
    fix j assume "j < D"
    then show "estimate_powerlaw (?col j) = Inr (map ?v (columns rows) ! j)"
      using each [of j] by (simp add: cols)
  qed
qed

theorem estimate_powerlaw_mle_witness:
  "estimate_powerlaw [1, 2, 4] = Inr (Fin (1 + 3 / (ln 2 + ln 4)))
   \<and> estimate_powerlaw [3, 3] = Inr PInf
   \<and> estimate_powerlaw_columns [[1, 5], [2, 5]] = Inr [Fin (1 + 2 / ln 2), PInf]"
proof -
  have a: "estimate_powerlaw [1, 2, 4] = Inr (Fin (1 + 3 / (ln 2 + ln 4)))"
    using estimate_powerlaw_mle [of "[1, 2, 4]" "[]"] by simp
  have b: "estimate_powerlaw [3, 3] = Inr PInf"
    using estimate_powerlaw_mle [of "[3, 3]" "[]"] by simp
  have c1: "estimate_powerlaw [1, 2] = Inr (Fin (1 + 2 / ln 2))"
    using estimate_powerlaw_mle [of "[1, 2]" "[]"] by simp
  have c2: "estimate_powerlaw [5, 5] = Inr PInf"
    using estimate_powerlaw_mle [of "[5, 5]" "[]"] by simp
  obtain ahat where ahat: "estimate_powerlaw_columns [[1, 5], [2, 5]] = Inr ahat"
    "length ahat = 2"
    "\<forall>j<2. estimate_powerlaw (map (\<lambda>r. r ! j) [[1, 5], [2, 5]]) = Inr (ahat ! j)"
    using estimate_powerlaw_mle [of "[]" "[[1, 5], [2, 5]]" 2] by auto
  from ahat(3) have "estimate_powerlaw [1, 2] = Inr (ahat ! 0)"
    and "estimate_powerlaw [5, 5] = Inr (ahat ! 1)"
    by (auto simp: less_2_cases_iff)
  with c1 c2 have "ahat ! 0 = Fin (1 + 2 / ln 2)" and "ahat ! 1 = PInf" by simp_all
  with ahat(2) have "ahat = [Fin (1 + 2 / ln 2), PInf]"
    by (intro nth_equalityI) (auto simp: less_2_cases_iff)
  with ahat(1) a b show ?thesis by simp
qed

subsection \<open>gp_dim\<close>

lemma euclidean_1d: "euclidean [a] [b] = \<bar>a - b\<bar>"
  by (simp add: euclidean_def)

text \<open>
  The example used below: the four points \<open>0, 1, 2, 5\<close> on a line. Their positive
  distances, sorted, are \<open>1, 1, 1, 1, 2, 2, 3, 3, 4, 4, 5, 5\<close>.
\<close>

lemma cdist_example: "cdist [[0], [1], [2], [5]] [[0], [1], [2], [5]] =
   Inr [[0, 1, 2, 5], [1, 0, 1, 4], [2, 1, 0, 3], [5, 4, 3, 0]]"
  by (simp add: cdist_def ncols_def euclidean_1d)

lemma percentile_example_5: "percentile_value [1, 2, 5, 1, 1, 4, 2, 1, 3, 5, 4, 3] 5 = 1"
  by (simp add: percentile_value_def Let_def)

lemma percentile_example_50_above: "percentile_value [2, 5, 4, 2, 3, 5, 4, 3] 50 = 7 / 2"
  by (simp add: percentile_value_def Let_def)

lemma percentile_example_50_positive: "percentile_value [1, 2, 5, 1, 1, 4, 2, 1, 3, 5, 4, 3] 50 = 5 / 2"
  by (simp add: percentile_value_def Let_def)

lemma gp_sample_example: "gp_sample [[0], [1], [2], [5]] None = Inr [2, 2, 3, 3]"
  by (simp add: gp_sample_def cdist_example np_percentile_def percentile_example_5
      percentile_example_50_above)

lemma band_example:
  "band_of_positive_distances [0, 1, 2, 5, 1, 0, 1, 4, 2, 1, 0, 3, 5, 4, 3, 0] = [2, 2]"
  by (simp add: band_of_positive_distances_def percentile_example_5
      percentile_example_50_positive)


text \<open>
  C2, as amended. When the distance matrix exists, some distance is positive and some
  positive distance lies above the 5th percentile of the positive distances, \<open>gp_dim\<close>
  is \<open>estimate_powerlaw\<close> of this sample: the positive distances above their 5th
  percentile and below the 50th percentile of the distances that passed the first two
  filters. Every value of the sample is positive.
\<close>

theorem gp_dim_sequential_band:
  fixes data :: "real list list"
  assumes "cdist data (case y_data of None \<Rightarrow> data | Some y \<Rightarrow> y) = Inr dists"
    and "filter (\<lambda>r. 0 < r) (concat dists) \<noteq> []"
    and "filter (\<lambda>r. percentile_value (filter (\<lambda>r. 0 < r) (concat dists)) 5 < r)
           (filter (\<lambda>r. 0 < r) (concat dists)) \<noteq> []"
  shows "(let pos = filter (\<lambda>r. 0 < r) (concat dists);
              above = filter (\<lambda>r. percentile_value pos 5 < r) pos;
              band = filter (\<lambda>r. r < percentile_value above 50) above
          in gp_sample data y_data = Inr band
             \<and> gp_dim data y_data = estimate_powerlaw band
             \<and> (\<forall>r\<in>set band. 0 < r))"
proof -
  define pos where "pos = filter (\<lambda>r. 0 < r) (concat dists)"
  define above where "above = filter (\<lambda>r. percentile_value pos 5 < r) pos"
  define band where "band = filter (\<lambda>r. r < percentile_value above 50) above"
  have p5: "np_percentile pos 5 = Inr (percentile_value pos 5)"
    using assms(2) by (simp add: np_percentile_def pos_def)
  have p50: "np_percentile above 50 = Inr (percentile_value above 50)"
    using assms(3) by (simp add: np_percentile_def above_def pos_def)
  have sample: "gp_sample data y_data = Inr band"
    using assms(1) p5 p50
    by (simp add: gp_sample_def Let_def band_def above_def pos_def)
  then have dim: "gp_dim data y_data = estimate_powerlaw band"
    by (simp add: gp_dim_def)
  have positive: "\<forall>r\<in>set band. 0 < r"
    by (simp add: band_def above_def pos_def)
  from sample dim positive show ?thesis
    unfolding Let_def band_def above_def pos_def by (intro conjI)
qed

theorem gp_dim_sequential_band_witness:
  "gp_sample [[0], [1], [2], [5]] None = Inr [2, 2, 3, 3]
   \<and> gp_dim [[0], [1], [2], [5]] None = estimate_powerlaw [2, 2, 3, 3]"
  using gp_dim_sequential_band [of "[[0], [1], [2], [5]]" None
      "[[0, 1, 2, 5], [1, 0, 1, 4], [2, 1, 0, 3], [5, 4, 3, 0]]"]
  by (simp add: cdist_example percentile_example_5 percentile_example_50_above Let_def)

text \<open>
  C2 as stated takes both percentiles of the positive distances. For the four points
  the 50th percentile of the positive distances is \<open>5/2\<close> and the stated band is
  \<open>[2, 2]\<close>, on which the estimator gives an infinity; the function cuts at \<open>7/2\<close>, the 50th
  percentile of the distances above the 5th percentile, feeds \<open>[2, 2, 3, 3]\<close> and
  returns a finite exponent.
\<close>

theorem gp_dim_band_counterexample:
  "gp_dim [[0], [1], [2], [5]] None = Inr (Fin (1 + 4 / (ln (3 / 2) + ln (3 / 2))))
   \<and> cdist [[0], [1], [2], [5]] [[0], [1], [2], [5]]
       = Inr [[0, 1, 2, 5], [1, 0, 1, 4], [2, 1, 0, 3], [5, 4, 3, 0]]
   \<and> estimate_powerlaw (band_of_positive_distances
         (concat [[0, 1, 2, 5], [1, 0, 1, 4], [2, 1, 0, 3], [5, 4, 3, 0]])) = Inr PInf"
proof -
  have "0 < ln (3 / 2 :: real)" by simp
  then have nz: "ln (3 / 2 :: real) + ln (3 / 2) \<noteq> 0" by linarith
  have "estimate_powerlaw [2, 2, 3, 3] = Inr (Fin (1 + 4 / (ln (3 / 2) + ln (3 / 2))))"
    using nz by (simp add: estimate_powerlaw_def np_min_def np_sum_def)
  moreover have "estimate_powerlaw [2, 2] = Inr PInf"
    by (simp add: estimate_powerlaw_def np_min_def np_sum_def)
  ultimately show ?thesis
    by (simp add: gp_dim_def gp_sample_example band_example cdist_example)
qed

subsection \<open>find_lyapunov_exponents\<close>

text \<open>Shapes of the matrices of the loop.\<close>

lemma is_mat_iff: "is_mat d M \<longleftrightarrow> length M = d \<and> (\<forall>r\<in>set M. length r = d)"
  by (simp add: is_mat_def list_all_iff)

lemma is_mat_identity: "is_mat d (identity d)"
  by (auto simp: is_mat_iff identity_def)

lemma is_mat_scale: "is_mat d M \<Longrightarrow> is_mat d (mat_scale c M)"
  by (auto simp: is_mat_iff mat_scale_def)

lemma is_mat_sub:
  assumes "is_mat d A" and "is_mat d B"
  shows "is_mat d (mat_sub A B)"
proof -
  have "length r = d" if "r \<in> set (mat_sub A B)" for r
  proof -
    from that obtain a b where ab: "(a, b) \<in> set (zip A B)" and r: "r = map2 (\<lambda>a b. a - b) a b"
      by (auto simp: mat_sub_def)
    from ab have "a \<in> set A" and "b \<in> set B"
      by (auto dest: set_zip_leftD set_zip_rightD)
    with assms have "length a = d" and "length b = d" by (auto simp: is_mat_iff)
    with r show ?thesis by simp
  qed
  moreover have "length (mat_sub A B) = d"
    using assms by (simp add: mat_sub_def is_mat_iff)
  ultimately show ?thesis by (simp add: is_mat_iff)
qed

lemma ncols_is_mat: "is_mat d B \<Longrightarrow> ncols B = d"
  by (cases B) (auto simp: is_mat_iff ncols_def)

lemma is_mat_matmul: "is_mat d A \<Longrightarrow> is_mat d B \<Longrightarrow> is_mat d (matmul A B)"
  by (auto simp: is_mat_iff matmul_def columns_def ncols_is_mat)

lemma length_diagonal: "is_mat d M \<Longrightarrow> length (diagonal M) = d"
  by (simp add: is_mat_iff diagonal_def)

text \<open>The Jacobian of the specification is the array the loop computes.\<close>

lemma local_jacobian_jacval:
  assumes "local_jacobian la m t X = Some J"
  shows "jacval_of la m t X = Inr J"
  using assms
  by (auto simp: local_jacobian_def jacval_of_def jacobian_at_def Let_def
      split: option.splits sum.splits)

lemma local_jacobian_shape:
  assumes "numerics_shapes d la" and "model_shapes d m" and "local_jacobian la m t X = Some J"
  shows "is_mat d J"
proof -
  define J0 where "J0 = (case jac m (ic m) 0 of
      None \<Rightarrow> Some (jac_fd la (\<lambda>x. rhs m x t) X) | Some J0 \<Rightarrow> jac m X t)"
  have base: "is_mat d B" if "J0 = Some B" for B
    using that assms(1,2)
    by (auto simp: J0_def numerics_shapes_def model_shapes_def split: option.splits)
  show ?thesis
  proof (cases "postprocessing m")
    case None
    with assms(3) have "J0 = Some J" by (simp add: local_jacobian_def J0_def)
    then show ?thesis by (rule base)
  next
    case (Some h)
    let ?dhdy = "jac_fd la h X"
    from assms(3) Some obtain dydh B where
      inv: "linalg_inv la ?dhdy = Inr dydh" and
      b: "J0 = Some B" and
      J: "J = matmul (matmul ?dhdy B) dydh"
      by (auto simp: local_jacobian_def J0_def [symmetric] Let_def split: sum.splits)
    have a: "is_mat d ?dhdy" using assms(1) by (simp add: numerics_shapes_def)
    then have c: "is_mat d dydh" using assms(1) inv unfolding numerics_shapes_def by blast
    show ?thesis unfolding J by (intro is_mat_matmul a c base b)
  qed
qed

text \<open>The least entry of an array without NaN, through the order of the sort key.\<close>

lemma np_less_key:
  "a \<noteq> NaN \<Longrightarrow> b \<noteq> NaN \<Longrightarrow> np_less a b \<longleftrightarrow> np_sort_key a < np_sort_key b"
  by (cases a; cases b) auto

lemma fold_np_fmin2:
  assumes "x \<noteq> NaN" and "NaN \<notin> set rest"
  shows "fold np_fmin2 rest x \<noteq> NaN
    \<and> fold np_fmin2 rest x \<in> set (x # rest)
    \<and> (\<forall>y\<in>set (x # rest). np_sort_key (fold np_fmin2 rest x) \<le> np_sort_key y)"
  using assms
proof (induction rest arbitrary: x)
  case Nil
  then show ?case by simp
next
  case (Cons z rest)
  let ?w = "np_fmin2 z x"
  from Cons.prems have z: "z \<noteq> NaN" and rest: "NaN \<notin> set rest" by auto
  have w: "?w \<noteq> NaN" "?w = x \<or> ?w = z"
    "np_sort_key ?w \<le> np_sort_key x" "np_sort_key ?w \<le> np_sort_key z"
    using Cons.prems(1) z by (auto simp: np_fmin2_def np_less_key)
  from Cons.IH [OF w(1) rest]
  have ih: "fold np_fmin2 rest ?w \<noteq> NaN"
    "fold np_fmin2 rest ?w \<in> set (?w # rest)"
    "\<forall>y\<in>set (?w # rest). np_sort_key (fold np_fmin2 rest ?w) \<le> np_sort_key y"
    by blast+
  have "fold np_fmin2 rest ?w \<in> set (x # z # rest)"
    using ih(2) w(2) by auto
  moreover have "\<forall>y\<in>set (x # z # rest). np_sort_key (fold np_fmin2 rest ?w) \<le> np_sort_key y"
    using ih(3) w(3,4) by (auto intro: order_trans)
  ultimately show ?case using ih(1) by simp
qed

lemma np_fmin_less:
  assumes "xs \<noteq> []" and "NaN \<notin> set xs"
  shows "\<exists>s. np_fmin xs = Inr s \<and> (np_less s (Fin c) \<longleftrightarrow> list_ex (\<lambda>x. np_less x (Fin c)) xs)"
proof -
  from assms(1) obtain x rest where xs: "xs = x # rest" by (cases xs) auto
  let ?s = "fold np_fmin2 rest x"
  from assms(2) xs have "x \<noteq> NaN" "NaN \<notin> set rest" by auto
  from fold_np_fmin2 [OF this]
  have s: "?s \<noteq> NaN" "?s \<in> set xs" "\<forall>y\<in>set xs. np_sort_key ?s \<le> np_sort_key y"
    unfolding xs by blast+
  have "np_less ?s (Fin c) \<longleftrightarrow> (\<exists>y\<in>set xs. np_less y (Fin c))"
  proof
    assume "np_less ?s (Fin c)"
    with s(2) show "\<exists>y\<in>set xs. np_less y (Fin c)" by blast
  next
    assume "\<exists>y\<in>set xs. np_less y (Fin c)"
    then obtain y where y: "y \<in> set xs" "np_less y (Fin c)" by blast
    with assms(2) have "y \<noteq> NaN" by auto
    with y(2) have "np_sort_key y < np_sort_key (Fin c)" by (simp add: np_less_key)
    with s(3) y(1) have "np_sort_key ?s < np_sort_key (Fin c)"
      by (meson le_less_trans)
    with s(1) show "np_less ?s (Fin c)" by (simp add: np_less_key)
  qed
  moreover have "np_fmin xs = Inr ?s" by (simp add: np_fmin_def xs)
  ultimately show ?thesis unfolding list_ex_iff by blast
qed

lemma recorded_entry_not_NaN: "np_abs (np_log (Fin \<bar>x\<bar>)) \<noteq> NaN"
  by (cases "x = 0") simp_all

lemma np_fmin_recorded:
  assumes "diag \<noteq> []"
  shows "\<exists>s. np_fmin (map np_abs (map (\<lambda>x. np_log (Fin \<bar>x\<bar>)) diag)) = Inr s
    \<and> (np_less s (Fin tol)
        \<longleftrightarrow> list_ex (\<lambda>x. np_less (np_abs x) (Fin tol)) (map (\<lambda>x. np_log (Fin \<bar>x\<bar>)) diag))"
proof -
  let ?row = "map (\<lambda>x. np_log (Fin \<bar>x\<bar>)) diag"
  have ne: "map np_abs ?row \<noteq> []" using assms by simp
  have "y \<noteq> NaN" if "y \<in> set (map np_abs ?row)" for y
  proof -
    from that obtain x where "y = np_abs (np_log (Fin \<bar>x\<bar>))"
      by (auto simp del: np_log.simps np_abs.simps)
    then show ?thesis by (simp only: recorded_entry_not_NaN not_False_eq_True)
  qed
  then have "NaN \<notin> set (map np_abs ?row)" by blast
  from np_fmin_less [OF ne this, of tol] obtain s where
    s: "np_fmin (map np_abs ?row) = Inr s"
    "np_less s (Fin tol) \<longleftrightarrow> list_ex (\<lambda>x. np_less x (Fin tol)) (map np_abs ?row)"
    by blast
  have "list_ex (\<lambda>x. np_less x (Fin tol)) (map np_abs ?row)
      \<longleftrightarrow> list_ex (\<lambda>x. np_less (np_abs x) (Fin tol)) ?row"
    unfolding list_ex_iff by (simp only: set_map bex_simps image_iff)
  with s show ?thesis by blast
qed

text \<open>One pass of the loop against one step of the specification.\<close>

lemma lyap_step_first_pass:
  assumes "local_jacobian la m t X = Some J"
  shows "lyap_step la m d dt tol min_tpts (0, t, X) st = Inr st"
proof -
  have "jacval_of la m t X = Inr J" using assms by (rule local_jacobian_jacval)
  then show ?thesis
    by (cases st) (simp add: lyap_step_def split: option.splits)
qed

lemma lyap_step_later_pass:
  assumes shapes: "numerics_shapes d la" "model_shapes d m"
    and d: "1 \<le> d"
    and i: "1 \<le> i"
    and J: "local_jacobian la m t X = Some J"
    and A: "linalg_inv la (mat_sub (identity d) (mat_scale dt J)) = Inr A"
    and Q: "is_mat d Q"
  shows "lyap_step la m d dt tol min_tpts (i, t, X) (Q, al, L) =
      Inr (fst (linalg_qr la (matmul A Q)),
           al @ [map (\<lambda>x. np_log (Fin \<bar>x\<bar>)) (diagonal (snd (linalg_qr la (matmul A Q))))],
           if stops_early tol min_tpts i
                (map (\<lambda>x. np_log (Fin \<bar>x\<bar>)) (diagonal (snd (linalg_qr la (matmul A Q)))))
           then int i else L)
    \<and> is_mat d (fst (linalg_qr la (matmul A Q)))
    \<and> length (diagonal (snd (linalg_qr la (matmul A Q)))) = d"
proof -
  define row where
    "row = map (\<lambda>x. np_log (Fin \<bar>x\<bar>)) (diagonal (snd (linalg_qr la (matmul A Q))))"
  have later: "\<not> i < 1" using i by simp
  have jv: "jacval_of la m t X = Inr J" using J by (rule local_jacobian_jacval)
  have "is_mat d J" using shapes J by (rule local_jacobian_shape)
  then have "is_mat d (mat_sub (identity d) (mat_scale dt J))"
    by (intro is_mat_sub is_mat_identity is_mat_scale)
  then have "is_mat d A" using shapes(1) A unfolding numerics_shapes_def by blast
  then have un: "is_mat d (matmul A Q)" using Q by (rule is_mat_matmul)
  then have q: "is_mat d (fst (linalg_qr la (matmul A Q)))"
    and r: "is_mat d (snd (linalg_qr la (matmul A Q)))"
    using shapes(1) unfolding numerics_shapes_def by blast+
  have len: "length (diagonal (snd (linalg_qr la (matmul A Q)))) = d"
    using r by (rule length_diagonal)
  with d have "diagonal (snd (linalg_qr la (matmul A Q))) \<noteq> []" by auto
  from np_fmin_recorded [OF this, of tol] obtain s where
    s: "np_fmin (map np_abs row) = Inr s"
    "np_less s (Fin tol) \<longleftrightarrow> list_ex (\<lambda>x. np_less (np_abs x) (Fin tol)) row"
    unfolding row_def by blast
  have "lyap_step la m d dt tol min_tpts (i, t, X) (Q, al, L) =
      Inr (fst (linalg_qr la (matmul A Q)), al @ [row],
           if np_less s (Fin tol) \<and> int i > min_tpts then int i else L)"
    using later jv A s(1)
    by (simp add: lyap_step_def Let_def row_def del: np_log.simps np_abs.simps)
  moreover have "(np_less s (Fin tol) \<and> int i > min_tpts) \<longleftrightarrow> stops_early tol min_tpts i row"
    using s(2) by (auto simp: stops_early_def)
  ultimately have "lyap_step la m d dt tol min_tpts (i, t, X) (Q, al, L) =
      Inr (fst (linalg_qr la (matmul A Q)), al @ [row],
           if stops_early tol min_tpts i row then int i else L)"
    by simp
  with q len show ?thesis unfolding row_def by blast
qed

text \<open>The effective length, pass by pass.\<close>

lemma final_length_Nil: "final_length tol min_tpts k L [] L"
  by (simp add: final_length_def)

lemma final_length_Cons:
  assumes "final_length tol min_tpts (Suc k) (if stops_early tol min_tpts k row then int k else L) rows L'"
  shows "final_length tol min_tpts k L (row # rows) L'"
proof -
  let ?stops = "\<lambda>i r. stops_early tol min_tpts i r"
  let ?L1 = "if ?stops k row then int k else L"
  from assms consider
    (none) "L' = ?L1" "\<forall>p<length rows. \<not> ?stops (Suc k + p) (rows ! p)"
  | (some) p where "p < length rows" "L' = int (Suc k + p)" "?stops (Suc k + p) (rows ! p)"
      "\<forall>q. p < q \<and> q < length rows \<longrightarrow> \<not> ?stops (Suc k + q) (rows ! q)"
    unfolding final_length_def by blast
  then show ?thesis
  proof cases
    case none
    have tail: "\<not> ?stops (k + q) ((row # rows) ! q)" if "0 < q" "q < length (row # rows)" for q
    proof -
      from that obtain q' where q': "q = Suc q'" "q' < length rows" by (cases q) auto
      with none(2) have "\<not> ?stops (Suc k + q') (rows ! q')" by blast
      with q' show ?thesis by simp
    qed
    show ?thesis
    proof (cases "?stops k row")
      case True
      with none(1) have "L' = int (k + 0)" by simp
      moreover have "?stops (k + 0) ((row # rows) ! 0)" using True by simp
      moreover have "\<forall>q. 0 < q \<and> q < length (row # rows) \<longrightarrow> \<not> ?stops (k + q) ((row # rows) ! q)"
        using tail by blast
      moreover have "0 < length (row # rows)" by simp
      ultimately show ?thesis unfolding final_length_def by blast
    next
      case False
      with none(1) have "L' = L" by simp
      moreover have "\<not> ?stops (k + p) ((row # rows) ! p)" if "p < length (row # rows)" for p
      proof (cases "p = 0")
        case True
        with False show ?thesis by simp
      next
        case False
        with that tail show ?thesis by simp
      qed
      ultimately show ?thesis unfolding final_length_def by blast
    qed
  next
    case some
    have "Suc p < length (row # rows)" using some(1) by simp
    moreover have "L' = int (k + Suc p)" using some(2) by simp
    moreover have "?stops (k + Suc p) ((row # rows) ! Suc p)" using some(3) by simp
    moreover have "\<not> ?stops (k + q) ((row # rows) ! q)"
      if "Suc p < q" "q < length (row # rows)" for q
    proof -
      from that obtain q' where q': "q = Suc q'" "p < q'" "q' < length rows" by (cases q) auto
      with some(4) have "\<not> ?stops (Suc k + q') (rows ! q')" by blast
      with q' show ?thesis by simp
    qed
    ultimately show ?thesis unfolding final_length_def by blast
  qed
qed

text \<open>The loop over the samples after the first against the rows of the specification.\<close>

lemma lyap_loop_refines:
  assumes shapes: "numerics_shapes d la" "model_shapes d m"
    and d: "1 \<le> d"
    and jacs: "list_all2 (\<lambda>sample J. local_jacobian la m (fst sample) (snd sample) = Some J)
                 samples Js"
    and invs: "\<forall>J\<in>set Js. \<exists>A. linalg_inv la (mat_sub (identity d) (mat_scale dt J)) = Inr A"
    and Q: "is_mat d Q"
    and k: "1 \<le> k"
  shows "\<exists>rows Q' L'.
      tangent_rows la d dt Q Js = Some rows
    \<and> length rows = length samples
    \<and> (\<forall>row\<in>set rows. length row = d)
    \<and> lyap_loop la m d dt tol min_tpts (zip [k..<k + length samples] samples) (Q, al, L)
        = Inr (Q', al @ rows, L')
    \<and> final_length tol min_tpts k L rows L'"
  using jacs invs Q k
proof (induction samples Js arbitrary: Q k al L rule: list_all2_induct)
  case Nil
  show ?case by (simp add: final_length_Nil)
next
  case (Cons sample samples J Js)
  obtain t X where sample: "sample = (t, X)" by (cases sample) auto
  from Cons.hyps(1) sample have J: "local_jacobian la m t X = Some J" by simp
  from Cons.prems(1) obtain A where
    A: "linalg_inv la (mat_sub (identity d) (mat_scale dt J)) = Inr A" by auto
  define Q1 where "Q1 = fst (linalg_qr la (matmul A Q))"
  define row where
    "row = map (\<lambda>x. np_log (Fin \<bar>x\<bar>)) (diagonal (snd (linalg_qr la (matmul A Q))))"
  define L1 where "L1 = (if stops_early tol min_tpts k row then int k else L)"
  from lyap_step_later_pass [OF shapes d Cons.prems(3) J A Cons.prems(2), of tol min_tpts al L]
  have step: "lyap_step la m d dt tol min_tpts (k, t, X) (Q, al, L) = Inr (Q1, al @ [row], L1)"
    and Q1: "is_mat d Q1" and len: "length row = d"
    unfolding Q1_def row_def L1_def by simp_all
  have invs': "\<forall>J\<in>set Js. \<exists>A. linalg_inv la (mat_sub (identity d) (mat_scale dt J)) = Inr A"
    using Cons.prems(1) by simp
  have k': "1 \<le> Suc k" by simp
  from Cons.IH [OF invs' Q1 k', of "al @ [row]" L1] obtain rows Q' L' where
    ih: "tangent_rows la d dt Q1 Js = Some rows"
      "length rows = length samples"
      "\<forall>r\<in>set rows. length r = d"
      "lyap_loop la m d dt tol min_tpts (zip [Suc k..<Suc k + length samples] samples)
         (Q1, al @ [row], L1) = Inr (Q', (al @ [row]) @ rows, L')"
      "final_length tol min_tpts (Suc k) L1 rows L'"
    by blast
  have rows: "tangent_rows la d dt Q (J # Js) = Some (row # rows)"
    using A ih(1) by (simp add: Q1_def row_def del: np_log.simps)
  have "k < k + length (sample # samples)" by simp
  then have "[k..<k + length (sample # samples)] = k # [Suc k..<k + length (sample # samples)]"
    by (rule upt_conv_Cons)
  moreover have "k + length (sample # samples) = Suc k + length samples" by simp
  ultimately have upt: "[k..<k + length (sample # samples)] = k # [Suc k..<Suc k + length samples]"
    by (simp only:)
  have loop: "lyap_loop la m d dt tol min_tpts
      (zip [k..<k + length (sample # samples)] (sample # samples)) (Q, al, L)
      = Inr (Q', al @ (row # rows), L')"
    unfolding upt using step ih(4) by (simp add: sample)
  have "final_length tol min_tpts k L (row # rows) L'"
    using ih(5) unfolding L1_def by (rule final_length_Cons)
  moreover have "length (row # rows) = length (sample # samples)" using ih(2) by simp
  moreover have "\<forall>r\<in>set (row # rows). length r = d" using ih(3) len by simp
  ultimately show ?case using rows loop by blast
qed

text \<open>The step, the sort and the finite values.\<close>

lemma np_median_diff:
  assumes "2 \<le> length tpts"
  shows "\<exists>dt. np_median (np_diff tpts) = Fin dt"
proof -
  have "length (np_diff tpts) = length tpts - 1" by (simp add: np_diff_def)
  with assms have ne: "length (sort (np_diff tpts)) \<noteq> 0" by simp
  show ?thesis
  proof (cases "odd (length (sort (np_diff tpts)))")
    case True
    with ne have "np_median (np_diff tpts) =
        Fin (sort (np_diff tpts) ! (length (sort (np_diff tpts)) div 2))"
      by (simp only: np_median_def Let_def if_True if_False simp_thms)
    then show ?thesis by blast
  next
    case False
    with ne have "np_median (np_diff tpts) =
        Fin ((sort (np_diff tpts) ! (length (sort (np_diff tpts)) div 2 - 1)
              + sort (np_diff tpts) ! (length (sort (np_diff tpts)) div 2)) / 2)"
      by (simp only: np_median_def Let_def if_True if_False simp_thms)
    then show ?thesis by blast
  qed
qed

lemma np_sort_descending:
  "sorted_wrt (\<lambda>a b. np_sort_key b \<le> np_sort_key a) (rev (np_sort xs))"
proof -
  have "sorted (map np_sort_key (np_sort xs))" by (simp add: np_sort_def)
  then have "sorted_wrt (\<lambda>a b. np_sort_key a \<le> np_sort_key b) (np_sort xs)"
    by (simp add: sorted_map)
  then show ?thesis by (simp add: sorted_wrt_rev)
qed

lemma finite_list_map_Fin: "list_all is_finite xs \<Longrightarrow> \<exists>ys. xs = map Fin ys"
proof (induction xs)
  case Nil
  then show ?case by simp
next
  case (Cons x xs)
  then obtain ys where "xs = map Fin ys" by auto
  moreover from Cons.prems obtain y where "x = Fin y" by (cases x) auto
  ultimately have "x # xs = map Fin (y # ys)" by simp
  then show ?case by (rule exI)
qed

lemma np_sum_finite: "list_all is_finite xs \<Longrightarrow> is_finite (np_sum xs)"
  using finite_list_map_Fin [of xs] by (auto simp: np_sum_Fin)

lemma np_div_finite: "is_finite a \<Longrightarrow> c \<noteq> 0 \<Longrightarrow> is_finite (np_div a (Fin c))"
  by (cases a) auto

text \<open>
  The exceptions of a pass. A missing Jacobian is \<^verbatim>\<open>np.array(None)\<close>: without a coordinate
  change the product \<^verbatim>\<open>jacval * dt\<close> raises \<open>TypeError\<close> (on a pass after the first), with
  one the product \<^verbatim>\<open>dhdy @ jacval\<close> raises \<open>ValueError\<close> (on every pass), after the inverse
  of \<open>dhdy\<close> has been taken. A singular matrix raises \<open>LinAlgError\<close>.
\<close>

lemma jacval_of_missing_jacobian:
  assumes "jacobian_at la m t X = None" and "postprocessing m = None"
  shows "jacval_of la m t X = Inl TypeError"
  using assms by (simp add: jacval_of_def)

lemma jacval_of_missing_jacobian_postprocessing:
  assumes "jacobian_at la m t X = None" and "postprocessing m = Some h"
    and "linalg_inv la (jac_fd la h X) = Inr dydh"
  shows "jacval_of la m t X = Inl ValueError"
  using assms by (simp add: jacval_of_def Let_def)

lemma jacval_of_singular_postprocessing:
  assumes "postprocessing m = Some h" and "linalg_inv la (jac_fd la h X) = Inl err"
  shows "jacval_of la m t X = Inl err"
  using assms by (simp add: jacval_of_def Let_def)

lemma lyap_step_singular:
  assumes "1 \<le> i" and "jacval_of la m t X = Inr J"
    and "linalg_inv la (mat_sub (identity d) (mat_scale dt J)) = Inl err"
  shows "lyap_step la m d dt tol min_tpts (i, t, X) st = Inl err"
  using assms by (cases st) (simp add: lyap_step_def)

text \<open>The sign of a zero divisor.\<close>

lemma np_div_product_zero:
  assumes "0 < x"
  shows "np_div_product (Fin x) dt 0 = (if dt < 0 then NInf else PInf)"
    and "np_div_product (Fin x) 0 n = (if n < 0 then NInf else PInf)"
  using assms by (simp_all add: np_div_product_def)

text \<open>The runs of the two instances.\<close>

lemma identity_2: "identity 2 = [[1, 0], [0, 1]]"
  by (simp add: identity_def numeral_2_eq_2)

lemma example_inverse_step: "linalg_inv example_numerics (mat_sub (identity 2) (mat_scale 1 [[- 1, 0], [0, 1 / 2]]))
   = Inr [[1 / 2, 0], [0, 2]]"
  by (simp add: example_numerics_def inv2_def identity_2 mat_sub_def mat_scale_def)

lemma example_matmul: "matmul [[1 / 2, 0], [0, 2]] (identity 2) = [[1 / 2, 0], [0, 2]]"
  by (simp add: matmul_def identity_2 columns_def ncols_def)

lemma example_dt: "np_median (np_diff [0, 1, 2]) = Fin 1"
  by (simp add: np_median_def np_diff_def)

lemma example_qr: "linalg_qr example_numerics M = (identity 2, M)"
  by (simp add: example_numerics_def)

lemma example_diagonal: "diagonal [[1 / 2, 0], [0, 2 :: real]] = [1 / 2, 2]"
  by (simp add: diagonal_def numeral_2_eq_2)

lemma ln_two_facts: "ln (1 / 2 :: real) = - ln 2" "ln (2 :: real) < 1" "0 < ln (2 :: real)"
proof -
  show "ln (1 / 2 :: real) = - ln 2" by (simp add: ln_div)
  have "ln 2 \<le> (1 :: real)" using ln_le_minus_one [of "2 :: real"] by simp
  moreover have "ln 2 \<noteq> (1 :: real)" using ln_eq_minus_one [of "2 :: real"] by auto
  ultimately show "ln (2 :: real) < 1" by simp
  show "0 < ln (2 :: real)" by simp
qed

lemma example_sort: "rev (np_sort [Fin (- ln 2), Fin (ln 2)]) = [Fin (ln 2), Fin (- ln 2)]"
  using ln_two_facts by (simp add: np_sort_def)

lemma example_numerics_shapes: "numerics_shapes 2 example_numerics"
proof -
  have "is_mat 2 M'" if "inv2 M = Inr M'" for M M'
    using that
    by (auto simp: inv2_def is_mat_iff split: list.splits if_splits)
  then show ?thesis
    by (auto simp: numerics_shapes_def example_numerics_def is_mat_identity)
qed

lemma example_model_shapes: "model_shapes 2 example_model"
  by (auto simp: model_shapes_def example_model_def is_mat_iff)

lemma example_local_jacobian:
  "local_jacobian example_numerics example_model t X = Some [[- 1, 0], [0, 1 / 2]]"
  by (simp add: local_jacobian_def example_model_def)

lemma example_tangent_rows:
  "tangent_rows example_numerics 2 1 (identity 2) [[[- 1, 0], [0, 1 / 2]], [[- 1, 0], [0, 1 / 2]]]
   = Some [[Fin (- ln 2), Fin (ln 2)], [Fin (- ln 2), Fin (ln 2)]]"
  using ln_two_facts
  by (simp add: example_inverse_step example_matmul example_qr example_diagonal)

lemma example_stops_early:
  "stops_early 1 0 i [Fin (- ln 2), Fin (ln 2)] \<longleftrightarrow> 0 < i"
  using ln_two_facts by (simp add: stops_early_def)

lemma example_final_length:
  "final_length 1 0 1 3 [[Fin (- ln 2), Fin (ln 2)], [Fin (- ln 2), Fin (ln 2)]] L \<longleftrightarrow> L = 2"
proof -
  let ?rows = "[[Fin (- ln 2), Fin (ln 2)], [Fin (- ln 2), Fin (ln 2)]]"
  have row: "?rows ! p = [Fin (- ln 2), Fin (ln 2)]" if "p < 2" for p
    using that by (cases p) auto
  have stops: "stops_early 1 0 (1 + p) (?rows ! p)" if "p < 2" for p
    using that by (simp only: row example_stops_early)
  show ?thesis
  proof
    assume "final_length 1 0 1 3 ?rows L"
    then consider "\<forall>p<2. \<not> stops_early 1 0 (1 + p) (?rows ! p)"
      | p where "p < 2" "L = int (1 + p)"
          "\<forall>q. p < q \<and> q < 2 \<longrightarrow> \<not> stops_early 1 0 (1 + q) (?rows ! q)"
      unfolding final_length_def by auto
    then show "L = 2"
    proof cases
      case 1
      moreover have "(0 :: nat) < 2" by simp
      ultimately have "\<not> stops_early 1 0 (1 + 0) (?rows ! 0)" by blast
      then show ?thesis using stops [of 0] by simp
    next
      case 2
      have "p = 1"
      proof (rule ccontr)
        assume "p \<noteq> 1"
        with 2(1) have "p < 1 \<and> (1 :: nat) < 2" by simp
        with 2(3) have "\<not> stops_early 1 0 (1 + 1) (?rows ! 1)" by blast
        then show False using stops [of 1] by simp
      qed
      with 2(2) show ?thesis by simp
    qed
  next
    assume "L = 2"
    have "\<forall>q. 1 < q \<and> q < length ?rows \<longrightarrow> \<not> stops_early 1 0 (1 + q) (?rows ! q)"
      by auto
    moreover have "(1 :: nat) < length ?rows \<and> L = int (1 + 1) \<and> stops_early 1 0 (1 + 1) (?rows ! 1)"
      using stops [of 1] \<open>L = 2\<close> by simp
    ultimately show "final_length 1 0 1 3 ?rows L"
      unfolding final_length_def by blast
  qed
qed

lemma singular_model_shapes: "model_shapes 2 singular_model"
  by (auto simp: model_shapes_def singular_model_def is_mat_iff)

lemma singular_inverse_step:
  "linalg_inv example_numerics (mat_sub (identity 2) (mat_scale 1 [[1, 0], [0, 1]]))
   = Inl LinAlgError"
  by (simp add: example_numerics_def inv2_def identity_2 mat_sub_def mat_scale_def)

text \<open>
  C1, as amended. Let the model have an initial condition of length \<open>d \<ge> 1\<close> and a
  trajectory of at least two samples, let \<open>dt\<close> be the median of the differences of the
  times, let the Jacobian of the specification be defined at every sample (\<open>Js\<close>), and
  let the matrix \<open>I - J dt\<close> have an inverse for the Jacobian \<open>J\<close> of every sample after the
  first. Then the call returns. The rows it recorded are the rows of the specification
  along the Jacobians after the first (the logarithms of the absolute diagonal of the
  triangular factor, one row for every sample after the first); the effective length \<open>L\<close>
  is the argument when no pass meets the early-stopping test and the index of the last
  pass that meets it otherwise; and the result is the sums of the columns of the rows,
  each divided by \<open>dt * L\<close> (by the negative zero when the product is), sorted in descending
  order. It has exactly \<open>d\<close> entries, and they are finite when \<open>dt * L\<close> is not zero and every
  recorded entry is finite.
\<close>

theorem find_lyapunov_exponents_spectrum:
  assumes shapes: "numerics_shapes d la" "model_shapes d m"
    and d: "1 \<le> d"
    and traj: "make_trajectory m traj_length pts_per_period = (tpts, traj)"
    and two: "2 \<le> min (length tpts) (length traj)"
    and step: "dt = fin_value (np_median (np_diff tpts))"
    and jacs: "list_all2 (\<lambda>sample J. local_jacobian la m (fst sample) (snd sample) = Some J)
                 (zip tpts traj) Js"
    and invs: "\<forall>J\<in>set (tl Js). \<exists>A. linalg_inv la (mat_sub (identity d) (mat_scale dt J)) = Inr A"
  shows "\<exists>rows L final_lyap.
      tangent_rows la d dt (identity d) (tl Js) = Some rows
    \<and> length rows + 1 = min (length tpts) (length traj)
    \<and> final_length tol min_tpts 1 traj_length rows L
    \<and> find_lyapunov_exponents la m traj_length pts_per_period tol min_tpts = Inr final_lyap
    \<and> final_lyap =
        rev (np_sort (map (\<lambda>j. if (dt < 0 \<and> L = 0) \<or> (dt = 0 \<and> L < 0)
                                 then np_neg (np_div (np_sum (map (\<lambda>row. row ! j) rows)) (Fin 0))
                                 else np_div (np_sum (map (\<lambda>row. row ! j) rows))
                                        (Fin (dt * real_of_int L)))
                        [0..<d]))
    \<and> length final_lyap = d
    \<and> sorted_wrt (\<lambda>a b. np_sort_key b \<le> np_sort_key a) final_lyap
    \<and> (dt * real_of_int L \<noteq> 0 \<and> (\<forall>row\<in>set rows. list_all is_finite row)
         \<longrightarrow> list_all is_finite final_lyap)"
proof -
  have "2 \<le> length tpts" using two by simp
  then obtain dt' where "np_median (np_diff tpts) = Fin dt'"
    using np_median_diff by blast
  with step have dt: "np_median (np_diff tpts) = Fin dt" by simp
  define samples where "samples = zip tpts traj"
  have n: "length samples = min (length tpts) (length traj)" by (simp add: samples_def)
  with two obtain sample0 rest where samples: "samples = sample0 # rest" and rest: "rest \<noteq> []"
    by (cases samples; cases "tl samples") auto
  from jacs samples obtain J0 Js' where Js: "Js = J0 # Js'"
    and J0: "local_jacobian la m (fst sample0) (snd sample0) = Some J0"
    and jacs': "list_all2 (\<lambda>sample J. local_jacobian la m (fst sample) (snd sample) = Some J)
                 rest Js'"
    unfolding samples_def [symmetric] by (auto simp: list_all2_Cons1)
  have invs': "\<forall>J\<in>set Js'. \<exists>A. linalg_inv la (mat_sub (identity d) (mat_scale dt J)) = Inr A"
    using invs Js by simp
  from lyap_loop_refines [OF shapes d jacs' invs' is_mat_identity order_refl,
      of tol min_tpts "[]" traj_length]
  obtain rows Q' L where
    rows: "tangent_rows la d dt (identity d) Js' = Some rows"
      "length rows = length rest"
      "\<forall>row\<in>set rows. length row = d"
    and loop: "lyap_loop la m d dt tol min_tpts (zip [1..<1 + length rest] rest)
        (identity d, [], traj_length) = Inr (Q', rows, L)"
    and L: "final_length tol min_tpts 1 traj_length rows L"
    by auto
  have ne: "rows \<noteq> []" using rows(2) rest by auto
  have len: "length rows + 1 = min (length tpts) (length traj)"
    using rows(2) n samples by simp
  have "0 < min (length tpts) (length traj)" using two by linarith
  then have "[0..<min (length tpts) (length traj)] = 0 # [Suc 0..<min (length tpts) (length traj)]"
    by (rule upt_conv_Cons)
  moreover have "min (length tpts) (length traj) = 1 + length rest"
    using n samples by simp
  ultimately have "enumerate_zip tpts traj = (0, sample0) # zip [1..<1 + length rest] rest"
    unfolding enumerate_zip_def samples_def [symmetric] samples by simp
  moreover have "lyap_step la m d dt tol min_tpts (0, sample0) (identity d, [], traj_length)
      = Inr (identity d, [], traj_length)"
    using lyap_step_first_pass [OF J0] by simp
  ultimately have run: "lyap_loop la m d dt tol min_tpts (enumerate_zip tpts traj)
      (identity d, [], traj_length) = Inr (Q', rows, L)"
    using loop by simp
  have cols: "columns rows = map (\<lambda>j. map (\<lambda>row. row ! j) rows) [0..<d]"
    by (rule columns_rect) (use ne rows(3) in auto)
  define final_lyap where
    "final_lyap = rev (np_sort (map (\<lambda>j. if (dt < 0 \<and> L = 0) \<or> (dt = 0 \<and> L < 0)
        then np_neg (np_div (np_sum (map (\<lambda>row. row ! j) rows)) (Fin 0))
        else np_div (np_sum (map (\<lambda>row. row ! j) rows)) (Fin (dt * real_of_int L))) [0..<d]))"
  have dim: "length (ic m) = d" using shapes(2) by (simp add: model_shapes_def)
  have result: "find_lyapunov_exponents la m traj_length pts_per_period tol min_tpts
      = Inr final_lyap"
    unfolding find_lyapunov_exponents_def Let_def dim traj fst_conv snd_conv dt fin_value.simps
      run
    using ne by (simp add: cols final_lyap_def np_div_product_def comp_def)
  have length: "length final_lyap = d"
    unfolding final_lyap_def by (simp add: np_sort_def)
  have sorted: "sorted_wrt (\<lambda>a b. np_sort_key b \<le> np_sort_key a) final_lyap"
    unfolding final_lyap_def by (rule np_sort_descending)
  have finite: "list_all is_finite final_lyap"
    if nz: "dt * real_of_int L \<noteq> 0" and fin: "\<forall>row\<in>set rows. list_all is_finite row"
  proof -
    have zero: "\<not> ((dt < 0 \<and> L = 0) \<or> (dt = 0 \<and> L < 0))" using nz by auto
    have "is_finite (np_div (np_sum (map (\<lambda>row. row ! j) rows)) (Fin (dt * real_of_int L)))"
      if "j < d" for j
    proof (intro np_div_finite np_sum_finite nz)
      show "list_all is_finite (map (\<lambda>row. row ! j) rows)"
        using fin rows(3) that by (auto simp: list_all_iff all_set_conv_all_nth)
    qed
    then show ?thesis
      unfolding final_lyap_def using zero by (auto simp: list_all_iff np_sort_def)
  qed
  have tangent: "tangent_rows la d dt (identity d) (tl Js) = Some rows"
    using rows(1) Js by simp
  show ?thesis
    apply (rule exI [of _ rows], rule exI [of _ L], rule exI [of _ final_lyap])
    apply (intro conjI impI)
           apply (rule tangent)
          apply (rule len)
         apply (rule L)
        apply (rule result)
       apply (rule final_lyap_def)
      apply (rule length)
     apply (rule sorted)
    apply (erule conjE, erule (1) finite)
    done
qed

theorem find_lyapunov_exponents_spectrum_witness:
  "numerics_shapes 2 example_numerics \<and> model_shapes 2 example_model
   \<and> make_trajectory example_model 3 500 = ([0, 1, 2], [[1, 1], [1, 1], [1, 1]])
   \<and> fin_value (np_median (np_diff [0, 1, 2])) = 1
   \<and> list_all2 (\<lambda>sample J.
         local_jacobian example_numerics example_model (fst sample) (snd sample) = Some J)
       (zip [0, 1, 2] [[1, 1], [1, 1], [1, 1]])
       [[[- 1, 0], [0, 1 / 2]], [[- 1, 0], [0, 1 / 2]], [[- 1, 0], [0, 1 / 2]]]
   \<and> linalg_inv example_numerics (mat_sub (identity 2) (mat_scale 1 [[- 1, 0], [0, 1 / 2]]))
       = Inr [[1 / 2, 0], [0, 2]]
   \<and> tangent_rows example_numerics 2 1 (identity 2)
         [[[- 1, 0], [0, 1 / 2]], [[- 1, 0], [0, 1 / 2]]]
       = Some [[Fin (- ln 2), Fin (ln 2)], [Fin (- ln 2), Fin (ln 2)]]
   \<and> final_length 1 0 1 3 [[Fin (- ln 2), Fin (ln 2)], [Fin (- ln 2), Fin (ln 2)]] 2
   \<and> find_lyapunov_exponents example_numerics example_model 3 500 1 0
       = Inr [Fin (ln 2), Fin (- ln 2)]"
proof -
  let ?J = "[[- 1, 0], [0, 1 / 2 :: real]]"
  let ?row = "[Fin (- ln 2), Fin (ln 2)]"
  have traj: "make_trajectory example_model 3 500 = ([0, 1, 2], [[1, 1], [1, 1], [1, 1]])"
    by (simp add: example_model_def)
  have two: "2 \<le> min (length [0, 1, 2 :: real]) (length [[1, 1], [1, 1], [1, 1 :: real]])"
    by simp
  have step: "1 = fin_value (np_median (np_diff [0, 1, 2]))"
    by (simp add: example_dt)
  have jacs: "list_all2 (\<lambda>sample J.
         local_jacobian example_numerics example_model (fst sample) (snd sample) = Some J)
       (zip [0, 1, 2] [[1, 1], [1, 1], [1, 1]]) [?J, ?J, ?J]"
    by (simp add: example_local_jacobian)
  have invs: "\<forall>J\<in>set (tl [?J, ?J, ?J]).
      \<exists>A. linalg_inv example_numerics (mat_sub (identity 2) (mat_scale 1 J)) = Inr A"
    by (simp add: example_inverse_step)
  from find_lyapunov_exponents_spectrum [OF example_numerics_shapes example_model_shapes _
      traj two step jacs invs, of 1 0]
  obtain rows L final_lyap where
    rows: "tangent_rows example_numerics 2 1 (identity 2) (tl [?J, ?J, ?J]) = Some rows"
    and L: "final_length 1 0 1 3 rows L"
    and run: "find_lyapunov_exponents example_numerics example_model 3 500 1 0 = Inr final_lyap"
    and final: "final_lyap =
        rev (np_sort (map (\<lambda>j. if ((1 :: real) < 0 \<and> L = 0) \<or> ((1 :: real) = 0 \<and> L < 0)
                                 then np_neg (np_div (np_sum (map (\<lambda>row. row ! j) rows)) (Fin 0))
                                 else np_div (np_sum (map (\<lambda>row. row ! j) rows))
                                        (Fin (1 * real_of_int L)))
                        [0..<2]))"
    by auto
  have "tl [?J, ?J, ?J] = [?J, ?J]" by simp
  with rows have rows_eq: "rows = [?row, ?row]"
    by (simp only: example_tangent_rows option.inject)
  from L have L_eq: "L = 2"
    unfolding rows_eq by (simp only: example_final_length)
  have "final_lyap = [Fin (ln 2), Fin (- ln 2)]"
    unfolding final rows_eq L_eq
    by (simp add: upt_conv_Cons np_sum_def example_sort)
  with run have "find_lyapunov_exponents example_numerics example_model 3 500 1 0
       = Inr [Fin (ln 2), Fin (- ln 2)]"
    by simp
  moreover have "final_length 1 0 1 3 [?row, ?row] 2"
    by (simp only: example_final_length)
  moreover have "fin_value (np_median (np_diff [0, 1, 2])) = 1"
    by (simp add: example_dt)
  ultimately show ?thesis
    using example_numerics_shapes example_model_shapes traj jacs example_inverse_step
      example_tangent_rows
    by (intro conjI)
qed

text \<open>
  C1 as stated is about every model. For the second instance the trajectory has three
  samples and the model an analytic Jacobian, but on the pass with index \<open>1\<close> the matrix
  \<open>I - J dt\<close> is the zero matrix, \<^verbatim>\<open>np.linalg.inv\<close> raises and the call returns nothing.
\<close>

theorem find_lyapunov_exponents_singular_counterexample:
  "length (ic singular_model) = 2
   \<and> make_trajectory singular_model 3 500 = ([0, 1, 2], [[1, 1], [1, 1], [1, 1]])
   \<and> np_median (np_diff [0, 1, 2]) = Fin 1
   \<and> jac singular_model [1, 1] 1 = Some [[1, 0], [0, 1]]
   \<and> postprocessing singular_model = None
   \<and> linalg_inv example_numerics (mat_sub (identity 2) (mat_scale 1 [[1, 0], [0, 1]]))
       = Inl LinAlgError
   \<and> find_lyapunov_exponents example_numerics singular_model 3 500 1 0 = Inl LinAlgError"
proof -
  have a: "length (ic singular_model) = 2"
    "make_trajectory singular_model 3 500 = ([0, 1, 2], [[1, 1], [1, 1], [1, 1]])"
    "jac singular_model [1, 1] 1 = Some [[1, 0], [0, 1]]"
    "postprocessing singular_model = None"
    by (simp_all add: singular_model_def)
  have jacval: "jacval_of example_numerics singular_model t X = Inr [[1, 0], [0, 1]]" for t X
    by (simp add: jacval_of_def jacobian_at_def singular_model_def)
  have first: "lyap_step example_numerics singular_model 2 1 1 0 (0, 0, [1, 1]) (identity 2, [], 3)
      = Inr (identity 2, [], 3)"
    by (simp add: lyap_step_def a(4))
  have second: "lyap_step example_numerics singular_model 2 1 1 0 (1, 1, [1, 1]) (identity 2, [], 3)
      = Inl LinAlgError"
    using jacval singular_inverse_step by (intro lyap_step_singular) simp_all
  have "enumerate_zip [0, 1, 2] [[1, 1], [1, 1], [1, 1]]
      = [(0, 0, [1, 1]), (1, 1, [1, 1]), (2, 2, [1, 1])]"
    by (simp add: enumerate_zip_def upt_conv_Cons)
  then have loop: "lyap_loop example_numerics singular_model 2 1 1 0
      (enumerate_zip [0, 1, 2] [[1, 1], [1, 1], [1, 1]]) (identity 2, [], 3) = Inl LinAlgError"
    using first second by simp
  have run: "find_lyapunov_exponents example_numerics singular_model 3 500 1 0 = Inl LinAlgError"
    unfolding find_lyapunov_exponents_def Let_def a fst_conv snd_conv example_dt fin_value.simps
      loop
    by simp
  show ?thesis
    using a example_dt singular_inverse_step run by (intro conjI)
qed

subsection \<open>pesin\<close>

text \<open>
  The median of the one estimate is the estimate: \<open>pesin\<close> returns the sum of the positive
  exponents, \<open>0.7\<close> on the spectrum \<open>[0.5, -0.3, 0.2]\<close>.
\<close>

theorem pesin_sum_positive:
  "pesin lyapval = Fin (sum_list (filter (\<lambda>x. 0 < x) lyapval))
   \<and> pesin [5 / 10, - 3 / 10, 2 / 10] = Fin (7 / 10)"
  by (simp add: pesin_def np_median_def)

end
